theory Spec2Isabelle
  imports Main "HOL-Library.Product_Lexorder" "HOL-Library.List_Lexorder" "HOL-Library.Char_ord"
    "HOL-Library.Multiset" "HOL-Library.AList"
begin

section \<open>Data model\<close>

text \<open>
  A row of the input DataFrame (columns \<^verbatim>\<open>pid\<close>, \<^verbatim>\<open>arrival_time\<close>, \<^verbatim>\<open>burst_time\<close>,
  \<^verbatim>\<open>priority\<close>). A DataFrame with the default index \<open>0..n-1\<close> is the list of its rows, so
  \<^verbatim>\<open>df.loc[i, 'burst_time']\<close> is \<open>burst_time (df ! i)\<close>. All four entry points only read
  rows \<open>i\<close> with \<open>i\<close> in \<^verbatim>\<open>range(n)\<close>. Times are integers, and the definitions of the
  four entry points compute with them exactly (\<open>int\<close>): this is the arithmetic of the
  source on Python ints, and on the 64-bit integers of a column of dtype \<^verbatim>\<open>int64\<close> as long
  as no value leaves the range \<open>[-2^63, 2^63)\<close>. What the source does on such a column
  outside that range is the subject of the section on frames with int64 columns.
\<close>

record process =
  pid :: string
  arrival_time :: int
  burst_time :: int
  priority :: int

text \<open>
  One entry of the schedule: the dictionary with keys \<^verbatim>\<open>'pid'\<close>, \<^verbatim>\<open>'start_time'\<close>,
  \<^verbatim>\<open>'end_time'\<close>. (The key \<^verbatim>\<open>'pid'\<close> is the field \<open>seg_pid\<close>, the name \<open>pid\<close> being taken by
  the process record.)
\<close>

record segment =
  seg_pid :: string
  start_time :: int
  end_time :: int

text \<open>A row of the metrics DataFrame: the process columns and the three added columns.\<close>

record metrics_row = process +
  completion_time :: int
  turnaround_time :: int
  waiting_time :: int

type_synonym run_result = "segment list \<times> metrics_row list"

text \<open>The marker the source writes into the \<^verbatim>\<open>'pid'\<close> key of an idle segment.\<close>

definition Idle :: string where
  "Idle = ''Idle''"

text \<open>
  \<^verbatim>\<open>metrics = df.copy(); metrics['completion_time'] = completion_time; ...\<close>: row \<open>i\<close> of the
  metrics frame is row \<open>i\<close> of \<open>df\<close> with entry \<open>i\<close> of each of the three lists. (The lists
  are created as \<^verbatim>\<open>[0] * n\<close> and only updated by index, so they have the frame's length.)
\<close>

definition metrics_frame ::
  "process list \<Rightarrow> int list \<Rightarrow> int list \<Rightarrow> int list \<Rightarrow> metrics_row list" where
  "metrics_frame df ct tat wt =
     map (\<lambda>i. process.extend (df ! i) (metrics_row.fields (ct ! i) (tat ! i) (wt ! i)))
       [0..<length df]"

text \<open>
  The scan the source repeats for every selection:
  \<^verbatim>\<open>best = float('inf'); idx = -1
  for i in range(n):
      if cond(i):
          if key(i) < best: best = key(i); idx = i\<close>
  \<open>None\<close> stands for \<^verbatim>\<open>float('inf')\<close> in the first component and for \<^verbatim>\<open>-1\<close> in the second.
\<close>

definition scan_min :: "(nat \<Rightarrow> bool) \<Rightarrow> (nat \<Rightarrow> int) \<Rightarrow> nat \<Rightarrow> int option \<times> nat option" where
  "scan_min cond key n =
     fold (\<lambda>i (best, idx).
             if cond i \<and> (case best of None \<Rightarrow> True | Some b \<Rightarrow> key i < b)
             then (Some (key i), Some i) else (best, idx))
       [0..<n] (None, None)"

section \<open>First Come First Serve\<close>

text \<open>
  \<^verbatim>\<open>processes.sort_values(by=['arrival_time', 'pid']).reset_index(drop=True)\<close>: a stable sort
  on the pair of keys; strings compare lexicographically by character code.
\<close>

definition sort_values :: "process list \<Rightarrow> process list" where
  "sort_values ps = sort_key (\<lambda>p. (arrival_time p, pid p)) ps"

record fcfs_state =
  f_current_time :: int
  f_completion_time :: "int list"
  f_turnaround_time :: "int list"
  f_waiting_time :: "int list"
  f_schedule :: "segment list"

text \<open>
  The body of \<^verbatim>\<open>for i in range(n)\<close>: first the block
  \<^verbatim>\<open>if current_time < processes.loc[i, 'arrival_time']:\<close> (\<open>fcfs_gap\<close>), then the process
  itself.
\<close>

definition fcfs_gap :: "process list \<Rightarrow> nat \<Rightarrow> fcfs_state \<Rightarrow> fcfs_state" where
  "fcfs_gap processes i st =
     (if f_current_time st < arrival_time (processes ! i)
      then st\<lparr>f_schedule := f_schedule st @
                  [\<lparr>seg_pid = Idle, start_time = f_current_time st,
                    end_time = arrival_time (processes ! i)\<rparr>],
              f_current_time := arrival_time (processes ! i)\<rparr>
      else st)"

definition fcfs_body :: "process list \<Rightarrow> nat \<Rightarrow> fcfs_state \<Rightarrow> fcfs_state" where
  "fcfs_body processes i st =
     (let st1 = fcfs_gap processes i st;
          t = f_current_time st1;
          c = t + burst_time (processes ! i);
          tat = c - arrival_time (processes ! i);
          w = tat - burst_time (processes ! i)
      in st1\<lparr>f_schedule := f_schedule st1 @
                 [\<lparr>seg_pid = pid (processes ! i), start_time = t,
                   end_time = t + burst_time (processes ! i)\<rparr>],
              f_completion_time := (f_completion_time st1)[i := c],
              f_turnaround_time := (f_turnaround_time st1)[i := tat],
              f_waiting_time := (f_waiting_time st1)[i := w],
              f_current_time := c\<rparr>)"

definition fcfs_init :: "nat \<Rightarrow> fcfs_state" where
  "fcfs_init n =
     \<lparr>f_current_time = 0, f_completion_time = replicate n 0,
      f_turnaround_time = replicate n 0, f_waiting_time = replicate n 0,
      f_schedule = []\<rparr>"

definition fcfs :: "process list \<Rightarrow> run_result" where
  "fcfs ps =
     (let processes = sort_values ps;
          n = length processes;
          st = fold (fcfs_body processes) [0..<n] (fcfs_init n)
      in (f_schedule st,
          metrics_frame processes (f_completion_time st) (f_turnaround_time st)
            (f_waiting_time st)))"

section \<open>Shortest Job First (non-preemptive)\<close>

record sjf_state =
  s_current_time :: int
  s_completed :: nat
  s_completion_time :: "int list"
  s_turnaround_time :: "int list"
  s_waiting_time :: "int list"
  s_is_completed :: "bool list"
  s_schedule :: "segment list"

text \<open>
  The first scan of the loop body: the index of the process with minimum burst time among
  the arrived, uncompleted ones (\<open>None\<close> for \<^verbatim>\<open>min_index == -1\<close>).
\<close>

definition sjf_select :: "process list \<Rightarrow> sjf_state \<Rightarrow> nat option" where
  "sjf_select df st =
     snd (scan_min (\<lambda>i. arrival_time (df ! i) \<le> s_current_time st \<and> \<not> s_is_completed st ! i)
            (\<lambda>i. burst_time (df ! i)) (length df))"

text \<open>
  One iteration of \<^verbatim>\<open>while completed != n\<close>. The result is \<open>None\<close> when the scan for the
  next arrival leaves \<^verbatim>\<open>next_arrival = float('inf')\<close>: then no process is uncompleted, the
  clock becomes infinite and the source loops forever appending idle segments.
\<close>

definition sjf_body :: "process list \<Rightarrow> sjf_state \<Rightarrow> sjf_state option" where
  "sjf_body df st =
     (let n = length df;
          t = s_current_time st
      in case sjf_select df st of
           None \<Rightarrow>
             (case fst (scan_min (\<lambda>i. \<not> s_is_completed st ! i)
                          (\<lambda>i. arrival_time (df ! i)) n) of
                None \<Rightarrow> None
              | Some next_arrival \<Rightarrow>
                  Some (st\<lparr>s_schedule := s_schedule st @
                              [\<lparr>seg_pid = Idle, start_time = t, end_time = next_arrival\<rparr>],
                           s_current_time := next_arrival\<rparr>))
         | Some mi \<Rightarrow>
             (let c = t + burst_time (df ! mi);
                  tat = c - arrival_time (df ! mi);
                  w = tat - burst_time (df ! mi)
              in Some (st\<lparr>s_schedule := s_schedule st @
                             [\<lparr>seg_pid = pid (df ! mi), start_time = t,
                               end_time = t + burst_time (df ! mi)\<rparr>],
                          s_completion_time := (s_completion_time st)[mi := c],
                          s_turnaround_time := (s_turnaround_time st)[mi := tat],
                          s_waiting_time := (s_waiting_time st)[mi := w],
                          s_current_time := c,
                          s_is_completed := (s_is_completed st)[mi := True],
                          s_completed := s_completed st + 1\<rparr>)))"

partial_function (option) sjf_while :: "process list \<Rightarrow> sjf_state \<Rightarrow> sjf_state option" where
  "sjf_while df st =
     (if s_completed st \<noteq> length df
      then (case sjf_body df st of None \<Rightarrow> None | Some st' \<Rightarrow> sjf_while df st')
      else Some st)"

declare sjf_while.simps [code]

definition sjf_init :: "nat \<Rightarrow> sjf_state" where
  "sjf_init n =
     \<lparr>s_current_time = 0, s_completed = 0, s_completion_time = replicate n 0,
      s_turnaround_time = replicate n 0, s_waiting_time = replicate n 0,
      s_is_completed = replicate n False, s_schedule = []\<rparr>"

text \<open>\<open>None\<close>: the call does not return.\<close>

definition sjf :: "process list \<Rightarrow> run_result option" where
  "sjf processes =
     (let df = processes; n = length df
      in case sjf_while df (sjf_init n) of
           None \<Rightarrow> None
         | Some st \<Rightarrow>
             Some (s_schedule st,
                   metrics_frame df (s_completion_time st) (s_turnaround_time st)
                     (s_waiting_time st)))"

section \<open>Round Robin\<close>

record rr_state =
  r_current_time :: int
  r_completion_time :: "int list"
  r_remaining_burst_time :: "int list"
  r_schedule :: "segment list"
  r_ready_queue :: "nat list"

text \<open>
  The branch \<^verbatim>\<open>if not ready_queue: if sum(remaining_burst_time) > 0:\<close>. A positive sum has
  a positive entry, so the scan finds a finite \<^verbatim>\<open>next_arrival\<close>; \<open>None\<close> covers the case
  left over.
\<close>

definition rr_idle :: "process list \<Rightarrow> rr_state \<Rightarrow> rr_state option" where
  "rr_idle df st =
     (let n = length df
      in case fst (scan_min (\<lambda>i. r_remaining_burst_time st ! i > 0)
                     (\<lambda>i. arrival_time (df ! i)) n) of
           None \<Rightarrow> None
         | Some next_arrival \<Rightarrow>
             Some (st\<lparr>r_schedule := r_schedule st @
                         [\<lparr>seg_pid = Idle, start_time = r_current_time st,
                           end_time = next_arrival\<rparr>],
                      r_current_time := next_arrival,
                      r_ready_queue :=
                        fold (\<lambda>i q. if arrival_time (df ! i) \<le> next_arrival \<and>
                                       r_remaining_burst_time st ! i > 0 \<and> i \<notin> set q
                                     then q @ [i] else q)
                          [0..<n] (r_ready_queue st)\<rparr>))"

text \<open>
  The \<^verbatim>\<open>else\<close> branch, after \<^verbatim>\<open>i = ready_queue.pop(0)\<close> has split the queue into \<open>i\<close> and
  \<open>rest\<close>.
\<close>

definition rr_exec :: "process list \<Rightarrow> int \<Rightarrow> nat \<Rightarrow> nat list \<Rightarrow> rr_state \<Rightarrow> rr_state" where
  "rr_exec df time_quantum i rest st =
     (let n = length df;
          execution_time = min time_quantum (r_remaining_burst_time st ! i);
          schedule = r_schedule st @
            [\<lparr>seg_pid = pid (df ! i), start_time = r_current_time st,
              end_time = r_current_time st + execution_time\<rparr>];
          current_time = r_current_time st + execution_time;
          remaining = (r_remaining_burst_time st)
            [i := r_remaining_burst_time st ! i - execution_time];
          queue = fold (\<lambda>j q. if arrival_time (df ! j) \<le> current_time \<and> remaining ! j > 0 \<and>
                                  j \<notin> set q \<and> j \<noteq> i
                               then q @ [j] else q)
                    [0..<n] rest
      in if remaining ! i > 0
         then st\<lparr>r_schedule := schedule, r_current_time := current_time,
                 r_remaining_burst_time := remaining, r_ready_queue := queue @ [i]\<rparr>
         else st\<lparr>r_schedule := schedule, r_current_time := current_time,
                 r_remaining_burst_time := remaining, r_ready_queue := queue,
                 r_completion_time := (r_completion_time st)[i := current_time]\<rparr>)"

partial_function (option) rr_while ::
  "process list \<Rightarrow> int \<Rightarrow> rr_state \<Rightarrow> rr_state option" where
  "rr_while df time_quantum st =
     (case r_ready_queue st of
        [] \<Rightarrow>
          if sum_list (r_remaining_burst_time st) > 0
          then (case rr_idle df st of
                  None \<Rightarrow> None
                | Some st' \<Rightarrow> rr_while df time_quantum st')
          else Some st
      | i # rest \<Rightarrow> rr_while df time_quantum (rr_exec df time_quantum i rest st))"

declare rr_while.simps [code]

definition rr_init :: "process list \<Rightarrow> rr_state" where
  "rr_init df =
     \<lparr>r_current_time = 0, r_completion_time = replicate (length df) 0,
      r_remaining_burst_time = map burst_time df, r_schedule = [],
      r_ready_queue = filter (\<lambda>i. arrival_time (df ! i) \<le> 0) [0..<length df]\<rparr>"

definition round_robin :: "process list \<Rightarrow> int \<Rightarrow> run_result option" where
  "round_robin processes time_quantum =
     (let df = processes; n = length df
      in case rr_while df time_quantum (rr_init df) of
           None \<Rightarrow> None
         | Some st \<Rightarrow>
             (let turnaround_time =
                    map (\<lambda>i. r_completion_time st ! i - arrival_time (df ! i)) [0..<n];
                  waiting_time =
                    map (\<lambda>i. turnaround_time ! i - burst_time (df ! i)) [0..<n]
              in Some (r_schedule st,
                       metrics_frame df (r_completion_time st) turnaround_time
                         waiting_time)))"

section \<open>Priority scheduling\<close>

datatype error = IndexError

record prio_state =
  p_current_time :: int
  p_completion_time :: "int list"
  p_remaining_burst_time :: "int list"
  p_is_completed :: "bool list"
  p_schedule :: "segment list"
  p_completed :: nat
  p_prev_process :: "nat option"

text \<open>
  \<^verbatim>\<open>schedule[-1]['end_time'] = v\<close>; on an empty list Python raises \<^verbatim>\<open>IndexError\<close>.
\<close>

definition set_last_end :: "segment list \<Rightarrow> int \<Rightarrow> error + segment list" where
  "set_last_end schedule v =
     (if schedule = [] then Inl IndexError
      else Inr (butlast schedule @ [(last schedule)\<lparr>end_time := v\<rparr>]))"

text \<open>
  The scan of the preemptive branch:
  \<^verbatim>\<open>next_arrival = float('inf')
  for i in range(n):
      if not is_completed[i] and i != selected_process and arrival_time[i] > current_time:
          next_arrival = min(next_arrival, arrival_time[i])\<close>
\<close>

definition future_arrival :: "process list \<Rightarrow> prio_state \<Rightarrow> nat \<Rightarrow> int option" where
  "future_arrival df st selected_process =
     fold (\<lambda>i next_arrival.
             if \<not> p_is_completed st ! i \<and> i \<noteq> selected_process \<and>
                arrival_time (df ! i) > p_current_time st
             then (case next_arrival of
                     None \<Rightarrow> Some (arrival_time (df ! i))
                   | Some a \<Rightarrow> Some (min a (arrival_time (df ! i))))
             else next_arrival)
       [0..<length df] None"

text \<open>
  The selection scan: the index of the process with the lowest priority number among the
  arrived, uncompleted ones (\<open>None\<close> for \<^verbatim>\<open>selected_process == -1\<close>).
\<close>

definition prio_select :: "process list \<Rightarrow> prio_state \<Rightarrow> nat option" where
  "prio_select df st =
     snd (scan_min (\<lambda>i. arrival_time (df ! i) \<le> p_current_time st \<and> \<not> p_is_completed st ! i)
            (\<lambda>i. priority (df ! i)) (length df))"

text \<open>
  One iteration of \<^verbatim>\<open>while completed != n\<close>; \<open>None\<close> as in \<open>sjf_body\<close>, \<open>-1\<close> for
  \<^verbatim>\<open>prev_process\<close> is \<open>None\<close>.
\<close>

definition prio_body :: "process list \<Rightarrow> bool \<Rightarrow> prio_state \<Rightarrow> (error + prio_state) option" where
  "prio_body df preemptive st =
     (let n = length df;
          t = p_current_time st;
          rem = p_remaining_burst_time st
      in case prio_select df st of
           None \<Rightarrow>
             (case fst (scan_min (\<lambda>i. \<not> p_is_completed st ! i)
                          (\<lambda>i. arrival_time (df ! i)) n) of
                None \<Rightarrow> None
              | Some next_arrival \<Rightarrow>
                  Some (Inr (st\<lparr>p_schedule := p_schedule st @
                                   [\<lparr>seg_pid = Idle, start_time = t, end_time = next_arrival\<rparr>],
                                p_current_time := next_arrival\<rparr>)))
         | Some sel \<Rightarrow>
             if \<not> preemptive
             then Some (Inr (st\<lparr>p_schedule := p_schedule st @
                                   [\<lparr>seg_pid = pid (df ! sel), start_time = t,
                                     end_time = t + rem ! sel\<rparr>],
                                p_current_time := t + rem ! sel,
                                p_completion_time := (p_completion_time st)[sel := t + rem ! sel],
                                p_remaining_burst_time := rem[sel := 0],
                                p_is_completed := (p_is_completed st)[sel := True],
                                p_completed := p_completed st + 1\<rparr>))
             else
               (let execution_time =
                      min (rem ! sel)
                        (case future_arrival df st sel of
                           None \<Rightarrow> rem ! sel
                         | Some next_arrival \<Rightarrow> next_arrival - t)
                in case (if p_prev_process st \<noteq> Some sel
                         then Inr (p_schedule st @
                                [\<lparr>seg_pid = pid (df ! sel), start_time = t,
                                  end_time = t + execution_time\<rparr>])
                         else set_last_end (p_schedule st) (t + execution_time)) of
                     Inl e \<Rightarrow> Some (Inl e)
                   | Inr schedule \<Rightarrow>
                       (let rem' = rem[sel := rem ! sel - execution_time];
                            st1 = st\<lparr>p_schedule := schedule,
                                     p_current_time := t + execution_time,
                                     p_remaining_burst_time := rem'\<rparr>;
                            st2 = (if rem' ! sel = 0
                                   then st1\<lparr>p_completion_time :=
                                               (p_completion_time st)[sel := t + execution_time],
                                            p_is_completed := (p_is_completed st)[sel := True],
                                            p_completed := p_completed st + 1\<rparr>
                                   else st1)
                        in Some (Inr (st2\<lparr>p_prev_process := Some sel\<rparr>)))))"

partial_function (option) prio_while ::
  "process list \<Rightarrow> bool \<Rightarrow> prio_state \<Rightarrow> (error + prio_state) option" where
  "prio_while df preemptive st =
     (if p_completed st \<noteq> length df
      then (case prio_body df preemptive st of
              None \<Rightarrow> None
            | Some (Inl e) \<Rightarrow> Some (Inl e)
            | Some (Inr st') \<Rightarrow> prio_while df preemptive st')
      else Some (Inr st))"

declare prio_while.simps [code]

definition prio_init :: "process list \<Rightarrow> prio_state" where
  "prio_init df =
     \<lparr>p_current_time = 0, p_completion_time = replicate (length df) 0,
      p_remaining_burst_time = map burst_time df,
      p_is_completed = replicate (length df) False, p_schedule = [],
      p_completed = 0, p_prev_process = None\<rparr>"

text \<open>\<open>None\<close>: the call does not return; \<open>Some (Inl e)\<close>: it raises \<open>e\<close>.\<close>

definition priority_scheduling :: "process list \<Rightarrow> bool \<Rightarrow> (error + run_result) option" where
  "priority_scheduling processes preemptive =
     (let df = processes; n = length df
      in case prio_while df preemptive (prio_init df) of
           None \<Rightarrow> None
         | Some (Inl e) \<Rightarrow> Some (Inl e)
         | Some (Inr st) \<Rightarrow>
             (let turnaround_time =
                    map (\<lambda>i. p_completion_time st ! i - arrival_time (df ! i)) [0..<n];
                  waiting_time =
                    map (\<lambda>i. turnaround_time ! i - burst_time (df ! i)) [0..<n]
              in Some (Inr (p_schedule st,
                            metrics_frame df (p_completion_time st) turnaround_time
                              waiting_time))))"

section \<open>Frames with int64 columns\<close>

text \<open>
  The definitions above compute with times exactly, as Python does on Python ints. pandas
  stores a column of integers with dtype \<^verbatim>\<open>int64\<close>; on such a frame
  \<^verbatim>\<open>df.loc[i, 'burst_time']\<close> is a \<^verbatim>\<open>numpy.int64\<close>, and the arithmetic of the source is
  that of NumPy: the sum or difference of two \<^verbatim>\<open>numpy.int64\<close> wraps around at \<open>2^63\<close>
  (with a warning), a Python int that meets a \<^verbatim>\<open>numpy.int64\<close> is first converted to
  \<^verbatim>\<open>int64\<close>, and that conversion raises \<^verbatim>\<open>OverflowError\<close> when the Python int is outside
  \<open>[-2^63, 2^63)\<close>. Comparisons are by value. A number of the run is therefore a Python
  int (the literal \<^verbatim>\<open>0\<close>, the time quantum, the entries of
  \<^verbatim>\<open>df['burst_time'].tolist()\<close> and what is computed from Python ints alone) or a
  \<^verbatim>\<open>numpy.int64\<close> (a cell of the frame and what is computed with one).
\<close>

datatype numpy_error = OverflowError

definition in_int64 :: "int \<Rightarrow> bool" where
  "in_int64 x \<longleftrightarrow> - (2 ^ 63) \<le> x \<and> x < 2 ^ 63"

definition wrap64 :: "int \<Rightarrow> int" where
  "wrap64 x = (x + 2 ^ 63) mod 2 ^ 64 - 2 ^ 63"

datatype num = PyInt int | Int64 int

fun val :: "num \<Rightarrow> int" where
  "val (PyInt x) = x"
| "val (Int64 x) = x"

text \<open>\<^verbatim>\<open>a + b\<close> and \<^verbatim>\<open>a - b\<close>.\<close>

fun num_add :: "num \<Rightarrow> num \<Rightarrow> numpy_error + num" where
  "num_add (PyInt a) (PyInt b) = Inr (PyInt (a + b))"
| "num_add (Int64 a) (Int64 b) = Inr (Int64 (wrap64 (a + b)))"
| "num_add (Int64 a) (PyInt b) =
     (if in_int64 b then Inr (Int64 (wrap64 (a + b))) else Inl OverflowError)"
| "num_add (PyInt a) (Int64 b) =
     (if in_int64 a then Inr (Int64 (wrap64 (a + b))) else Inl OverflowError)"

fun num_sub :: "num \<Rightarrow> num \<Rightarrow> numpy_error + num" where
  "num_sub (PyInt a) (PyInt b) = Inr (PyInt (a - b))"
| "num_sub (Int64 a) (Int64 b) = Inr (Int64 (wrap64 (a - b)))"
| "num_sub (Int64 a) (PyInt b) =
     (if in_int64 b then Inr (Int64 (wrap64 (a - b))) else Inl OverflowError)"
| "num_sub (PyInt a) (Int64 b) =
     (if in_int64 a then Inr (Int64 (wrap64 (a - b))) else Inl OverflowError)"

text \<open>
  A list comprehension whose elements may raise: the first exception ends it.
\<close>

fun collect :: "(numpy_error + 'a) list \<Rightarrow> numpy_error + 'a list" where
  "collect [] = Inr []"
| "collect (x # xs) =
     (case x of
        Inl e \<Rightarrow> Inl e
      | Inr v \<Rightarrow> (case collect xs of Inl e \<Rightarrow> Inl e | Inr vs \<Rightarrow> Inr (v # vs)))"

subsection \<open>First Come First Serve\<close>

text \<open>
  \<open>fcfs\<close> on a frame with int64 columns. The clock is the Python int \<^verbatim>\<open>0\<close> until the first
  assignment; every sum and difference has a cell as an operand. The schedule and the
  metrics columns keep the values of the numbers.
\<close>

record fcfs64_state =
  g_current_time :: num
  g_completion_time :: "num list"
  g_turnaround_time :: "num list"
  g_waiting_time :: "num list"
  g_schedule :: "segment list"

definition fcfs64_gap :: "process list \<Rightarrow> nat \<Rightarrow> fcfs64_state \<Rightarrow> fcfs64_state" where
  "fcfs64_gap processes i st =
     (if val (g_current_time st) < arrival_time (processes ! i)
      then st\<lparr>g_schedule := g_schedule st @
                  [\<lparr>seg_pid = Idle, start_time = val (g_current_time st),
                    end_time = arrival_time (processes ! i)\<rparr>],
              g_current_time := Int64 (arrival_time (processes ! i))\<rparr>
      else st)"

definition fcfs64_body ::
  "process list \<Rightarrow> nat \<Rightarrow> fcfs64_state \<Rightarrow> numpy_error + fcfs64_state" where
  "fcfs64_body processes i st =
     (let st1 = fcfs64_gap processes i st;
          t = g_current_time st1
      in case num_add t (Int64 (burst_time (processes ! i))) of
           Inl e \<Rightarrow> Inl e
         | Inr c \<Rightarrow>
             (case num_sub c (Int64 (arrival_time (processes ! i))) of
                Inl e \<Rightarrow> Inl e
              | Inr tat \<Rightarrow>
                  (case num_sub tat (Int64 (burst_time (processes ! i))) of
                     Inl e \<Rightarrow> Inl e
                   | Inr w \<Rightarrow>
                       Inr (st1\<lparr>g_schedule := g_schedule st1 @
                                   [\<lparr>seg_pid = pid (processes ! i), start_time = val t,
                                     end_time = val c\<rparr>],
                                g_completion_time := (g_completion_time st1)[i := c],
                                g_turnaround_time := (g_turnaround_time st1)[i := tat],
                                g_waiting_time := (g_waiting_time st1)[i := w],
                                g_current_time := c\<rparr>))))"

definition fcfs64_init :: "nat \<Rightarrow> fcfs64_state" where
  "fcfs64_init n =
     \<lparr>g_current_time = PyInt 0, g_completion_time = replicate n (PyInt 0),
      g_turnaround_time = replicate n (PyInt 0), g_waiting_time = replicate n (PyInt 0),
      g_schedule = []\<rparr>"

text \<open>\<open>Inl e\<close>: the call raises \<open>e\<close>.\<close>

definition fcfs_int64 :: "process list \<Rightarrow> numpy_error + run_result" where
  "fcfs_int64 ps =
     (let processes = sort_values ps;
          n = length processes
      in case fold (\<lambda>i r. case r of Inl e \<Rightarrow> Inl e | Inr st \<Rightarrow> fcfs64_body processes i st)
                [0..<n] (Inr (fcfs64_init n)) of
           Inl e \<Rightarrow> Inl e
         | Inr st \<Rightarrow>
             Inr (g_schedule st,
                  metrics_frame processes (map val (g_completion_time st))
                    (map val (g_turnaround_time st)) (map val (g_waiting_time st))))"

subsection \<open>Round Robin\<close>

text \<open>
  \<open>round_robin\<close> on a frame with int64 columns. The remaining burst times come from
  \<^verbatim>\<open>tolist()\<close> and the time quantum from the caller: they and the execution time are
  Python ints. The clock is a Python int until an idle-skip assigns it a cell, and the
  completion times are values of the clock; the differences after the loop have a cell as
  their second operand.
\<close>

record rr64_state =
  q_current_time :: num
  q_completion_time :: "num list"
  q_remaining_burst_time :: "int list"
  q_schedule :: "segment list"
  q_ready_queue :: "nat list"

definition rr64_idle :: "process list \<Rightarrow> rr64_state \<Rightarrow> rr64_state option" where
  "rr64_idle df st =
     (let n = length df
      in case fst (scan_min (\<lambda>i. q_remaining_burst_time st ! i > 0)
                     (\<lambda>i. arrival_time (df ! i)) n) of
           None \<Rightarrow> None
         | Some next_arrival \<Rightarrow>
             Some (st\<lparr>q_schedule := q_schedule st @
                         [\<lparr>seg_pid = Idle, start_time = val (q_current_time st),
                           end_time = next_arrival\<rparr>],
                      q_current_time := Int64 next_arrival,
                      q_ready_queue :=
                        fold (\<lambda>i q. if arrival_time (df ! i) \<le> next_arrival \<and>
                                       q_remaining_burst_time st ! i > 0 \<and> i \<notin> set q
                                     then q @ [i] else q)
                          [0..<n] (q_ready_queue st)\<rparr>))"

definition rr64_exec ::
  "process list \<Rightarrow> int \<Rightarrow> nat \<Rightarrow> nat list \<Rightarrow> rr64_state \<Rightarrow> numpy_error + rr64_state" where
  "rr64_exec df time_quantum i rest st =
     (let n = length df;
          execution_time = min time_quantum (q_remaining_burst_time st ! i)
      in case num_add (q_current_time st) (PyInt execution_time) of
           Inl e \<Rightarrow> Inl e
         | Inr current_time \<Rightarrow>
             (let schedule = q_schedule st @
                    [\<lparr>seg_pid = pid (df ! i), start_time = val (q_current_time st),
                      end_time = val current_time\<rparr>];
                  remaining = (q_remaining_burst_time st)
                    [i := q_remaining_burst_time st ! i - execution_time];
                  queue = fold (\<lambda>j q. if arrival_time (df ! j) \<le> val current_time \<and>
                                          remaining ! j > 0 \<and> j \<notin> set q \<and> j \<noteq> i
                                       then q @ [j] else q)
                            [0..<n] rest
              in if remaining ! i > 0
                 then Inr (st\<lparr>q_schedule := schedule, q_current_time := current_time,
                              q_remaining_burst_time := remaining,
                              q_ready_queue := queue @ [i]\<rparr>)
                 else Inr (st\<lparr>q_schedule := schedule, q_current_time := current_time,
                              q_remaining_burst_time := remaining, q_ready_queue := queue,
                              q_completion_time :=
                                (q_completion_time st)[i := current_time]\<rparr>)))"

partial_function (option) rr64_while ::
  "process list \<Rightarrow> int \<Rightarrow> rr64_state \<Rightarrow> (numpy_error + rr64_state) option" where
  "rr64_while df time_quantum st =
     (case q_ready_queue st of
        [] \<Rightarrow>
          if sum_list (q_remaining_burst_time st) > 0
          then (case rr64_idle df st of
                  None \<Rightarrow> None
                | Some st' \<Rightarrow> rr64_while df time_quantum st')
          else Some (Inr st)
      | i # rest \<Rightarrow>
          (case rr64_exec df time_quantum i rest st of
             Inl e \<Rightarrow> Some (Inl e)
           | Inr st' \<Rightarrow> rr64_while df time_quantum st'))"

declare rr64_while.simps [code]

definition rr64_init :: "process list \<Rightarrow> rr64_state" where
  "rr64_init df =
     \<lparr>q_current_time = PyInt 0, q_completion_time = replicate (length df) (PyInt 0),
      q_remaining_burst_time = map burst_time df, q_schedule = [],
      q_ready_queue = filter (\<lambda>i. arrival_time (df ! i) \<le> 0) [0..<length df]\<rparr>"

text \<open>\<open>None\<close>: the call does not return; \<open>Some (Inl e)\<close>: it raises \<open>e\<close>.\<close>

definition round_robin_int64 ::
  "process list \<Rightarrow> int \<Rightarrow> (numpy_error + run_result) option" where
  "round_robin_int64 processes time_quantum =
     (let df = processes; n = length df
      in case rr64_while df time_quantum (rr64_init df) of
           None \<Rightarrow> None
         | Some (Inl e) \<Rightarrow> Some (Inl e)
         | Some (Inr st) \<Rightarrow>
             (case collect (map (\<lambda>i. num_sub (q_completion_time st ! i)
                                        (Int64 (arrival_time (df ! i)))) [0..<n]) of
                Inl e \<Rightarrow> Some (Inl e)
              | Inr tat \<Rightarrow>
                  (case collect (map (\<lambda>i. num_sub (tat ! i)
                                             (Int64 (burst_time (df ! i)))) [0..<n]) of
                     Inl e \<Rightarrow> Some (Inl e)
                   | Inr wt \<Rightarrow>
                       Some (Inr (q_schedule st,
                                  metrics_frame df (map val (q_completion_time st))
                                    (map val tat) (map val wt))))))"

section \<open>The entry points on a store of DataFrame objects\<close>

text \<open>
  The purely functional definitions above take the rows of the caller's DataFrame as a
  value. To say what a call does to the caller's object, the same code is given once more
  over an explicit store: a DataFrame object is a \<open>frame\<close> (its rows and the columns added
  to it, by name), a reference is an index into the store, and an allocation appends to the
  store.
\<close>

record frame =
  rows :: "process list"
  cols :: "(string \<times> int list) list"

type_synonym ref = nat

type_synonym heap = "frame list"

text \<open>
  \<^verbatim>\<open>sort_values(by=['arrival_time', 'pid'])\<close> on a frame: the stable sort of the row
  positions by the pair of keys, applied to the rows and to every added column.
\<close>

definition frame_sort_values :: "frame \<Rightarrow> frame" where
  "frame_sort_values f =
     (let perm = sort_key (\<lambda>i. (arrival_time (rows f ! i), pid (rows f ! i)))
                   [0..<length (rows f)]
      in \<lparr>rows = map (\<lambda>i. rows f ! i) perm,
          cols = map (\<lambda>(k, vs). (k, map (\<lambda>i. vs ! i) perm)) (cols f)\<rparr>)"

text \<open>
  \<^verbatim>\<open>sort_values\<close>, \<^verbatim>\<open>reset_index(drop=True)\<close> and \<^verbatim>\<open>copy()\<close> return a new object (the row index
  is not part of the frame, so \<^verbatim>\<open>reset_index\<close> is a copy); \<^verbatim>\<open>metrics[name] = vals\<close> updates
  the object \<^verbatim>\<open>metrics\<close> refers to, in place.
\<close>

definition df_sort_values :: "heap \<Rightarrow> ref \<Rightarrow> ref \<times> heap" where
  "df_sort_values h r = (length h, h @ [frame_sort_values (h ! r)])"

definition df_reset_index :: "heap \<Rightarrow> ref \<Rightarrow> ref \<times> heap" where
  "df_reset_index h r = (length h, h @ [h ! r])"

definition df_copy :: "heap \<Rightarrow> ref \<Rightarrow> ref \<times> heap" where
  "df_copy h r = (length h, h @ [h ! r])"

definition df_set_column :: "heap \<Rightarrow> ref \<Rightarrow> string \<Rightarrow> int list \<Rightarrow> heap" where
  "df_set_column h r name vals = h[r := (h ! r)\<lparr>cols := AList.update name vals (cols (h ! r))\<rparr>]"

text \<open>
  The three assignments \<^verbatim>\<open>metrics['completion_time'] = ...\<close>,
  \<^verbatim>\<open>metrics['turnaround_time'] = ...\<close>, \<^verbatim>\<open>metrics['waiting_time'] = ...\<close> that end every
  entry point.
\<close>

definition set_metrics :: "heap \<Rightarrow> ref \<Rightarrow> int list \<Rightarrow> int list \<Rightarrow> int list \<Rightarrow> heap" where
  "set_metrics h metrics ct tat wt =
     (let h1 = df_set_column h metrics ''completion_time'' ct;
          h2 = df_set_column h1 metrics ''turnaround_time'' tat
      in df_set_column h2 metrics ''waiting_time'' wt)"

text \<open>
  The four entry points on the store. The loops only read the frame (\<^verbatim>\<open>df.loc[i, ...]\<close>),
  so they are the loops defined above, run on its rows. The result is the schedule, the
  reference of the metrics frame, and the store after the call.
\<close>

definition fcfs_call :: "heap \<Rightarrow> ref \<Rightarrow> (segment list \<times> ref) \<times> heap" where
  "fcfs_call h processes =
     (let (sorted, h1) = df_sort_values h processes;
          (processes', h2) = df_reset_index h1 sorted;
          df = rows (h2 ! processes');
          n = length df;
          st = fold (fcfs_body df) [0..<n] (fcfs_init n);
          (metrics, h3) = df_copy h2 processes'
      in ((f_schedule st, metrics),
          set_metrics h3 metrics (f_completion_time st) (f_turnaround_time st)
            (f_waiting_time st)))"

definition sjf_call :: "heap \<Rightarrow> ref \<Rightarrow> ((segment list \<times> ref) \<times> heap) option" where
  "sjf_call h processes =
     (let (df, h1) = df_copy h processes;
          n = length (rows (h1 ! df))
      in case sjf_while (rows (h1 ! df)) (sjf_init n) of
           None \<Rightarrow> None
         | Some st \<Rightarrow>
             (let (metrics, h2) = df_copy h1 df
              in Some ((s_schedule st, metrics),
                       set_metrics h2 metrics (s_completion_time st) (s_turnaround_time st)
                         (s_waiting_time st))))"

definition round_robin_call ::
  "heap \<Rightarrow> ref \<Rightarrow> int \<Rightarrow> ((segment list \<times> ref) \<times> heap) option" where
  "round_robin_call h processes time_quantum =
     (let (df, h1) = df_copy h processes;
          n = length (rows (h1 ! df))
      in case rr_while (rows (h1 ! df)) time_quantum (rr_init (rows (h1 ! df))) of
           None \<Rightarrow> None
         | Some st \<Rightarrow>
             (let turnaround_time =
                    map (\<lambda>i. r_completion_time st ! i - arrival_time (rows (h1 ! df) ! i))
                      [0..<n];
                  waiting_time =
                    map (\<lambda>i. turnaround_time ! i - burst_time (rows (h1 ! df) ! i)) [0..<n];
                  (metrics, h2) = df_copy h1 df
              in Some ((r_schedule st, metrics),
                       set_metrics h2 metrics (r_completion_time st) turnaround_time
                         waiting_time)))"

definition priority_scheduling_call ::
  "heap \<Rightarrow> ref \<Rightarrow> bool \<Rightarrow> (error + (segment list \<times> ref) \<times> heap) option" where
  "priority_scheduling_call h processes preemptive =
     (let (df, h1) = df_copy h processes;
          n = length (rows (h1 ! df))
      in case prio_while (rows (h1 ! df)) preemptive (prio_init (rows (h1 ! df))) of
           None \<Rightarrow> None
         | Some (Inl e) \<Rightarrow> Some (Inl e)
         | Some (Inr st) \<Rightarrow>
             (let turnaround_time =
                    map (\<lambda>i. p_completion_time st ! i - arrival_time (rows (h1 ! df) ! i))
                      [0..<n];
                  waiting_time =
                    map (\<lambda>i. turnaround_time ! i - burst_time (rows (h1 ! df) ! i)) [0..<n];
                  (metrics, h2) = df_copy h1 df
              in Some (Inr ((p_schedule st, metrics),
                            set_metrics h2 metrics (p_completion_time st) turnaround_time
                              waiting_time))))"

section \<open>Notions used in the properties\<close>

subsection \<open>Inputs\<close>

text \<open>
  A valid input is non-empty with arrival times \<open>\<ge> 0\<close> and burst times \<open>> 0\<close>;
  \<open>positive_bursts\<close> is the part of it that termination needs. Ids are unique when no two
  rows share a pid; \<open>no_idle_id\<close> says that no row uses the marker of idle segments as its
  pid.
\<close>

definition valid_input :: "process list \<Rightarrow> bool" where
  "valid_input ps \<longleftrightarrow> ps \<noteq> [] \<and> (\<forall>p\<in>set ps. 0 \<le> arrival_time p \<and> 0 < burst_time p)"

definition positive_bursts :: "process list \<Rightarrow> bool" where
  "positive_bursts ps \<longleftrightarrow> ps \<noteq> [] \<and> (\<forall>p\<in>set ps. 0 < burst_time p)"

definition unique_ids :: "process list \<Rightarrow> bool" where
  "unique_ids ps \<longleftrightarrow> distinct (map pid ps)"

definition no_idle_id :: "process list \<Rightarrow> bool" where
  "no_idle_id ps \<longleftrightarrow> Idle \<notin> pid ` set ps"

text \<open>
  The times of an input fit 64-bit integers when the arrival and burst times are in
  \<open>[-2^63, 2^63)\<close> and so are the latest time a run can reach, \<open>span\<close> (the latest arrival
  time, or 0, plus the sum of the burst times), and its distance from every arrival time.
\<close>

definition latest_arrival :: "process list \<Rightarrow> int" where
  "latest_arrival ps = fold (\<lambda>p m. max (arrival_time p) m) ps 0"

definition span :: "process list \<Rightarrow> int" where
  "span ps = latest_arrival ps + sum_list (map burst_time ps)"

definition fits_int64 :: "process list \<Rightarrow> bool" where
  "fits_int64 ps \<longleftrightarrow>
     list_all (\<lambda>p. in_int64 (arrival_time p) \<and> in_int64 (burst_time p) \<and>
                   in_int64 (span ps - arrival_time p)) ps \<and>
     in_int64 (span ps)"

subsection \<open>Selection and slices\<close>

text \<open>
  A process is ready for \<open>sjf\<close> when it has arrived and is not completed.
\<close>

definition sjf_ready :: "process list \<Rightarrow> sjf_state \<Rightarrow> nat \<Rightarrow> bool" where
  "sjf_ready df st i \<longleftrightarrow>
     i < length df \<and> arrival_time (df ! i) \<le> s_current_time st \<and> \<not> s_is_completed st ! i"

text \<open>
  The arrival times after the current time among the uncompleted processes other than the
  selected one, and the length of a preemptive slice in the words of the specification:
  the remaining burst, cut at the earliest such arrival when there is one.
\<close>

definition future_arrivals :: "process list \<Rightarrow> prio_state \<Rightarrow> nat \<Rightarrow> int set" where
  "future_arrivals df st sel =
     (\<lambda>j. arrival_time (df ! j)) `
       {j \<in> {0..<length df}. \<not> p_is_completed st ! j \<and> j \<noteq> sel \<and>
          p_current_time st < arrival_time (df ! j)}"

definition slice_length :: "process list \<Rightarrow> prio_state \<Rightarrow> nat \<Rightarrow> int" where
  "slice_length df st sel =
     (if future_arrivals df st sel = {} then p_remaining_burst_time st ! sel
      else min (p_remaining_burst_time st ! sel)
             (Min (future_arrivals df st sel) - p_current_time st))"

subsection \<open>Schedules and metrics tables\<close>

text \<open>
  The time a process is on the CPU: the sum of the durations of the segments that carry
  its pid and are not idle segments.
\<close>

definition duration :: "segment \<Rightarrow> int" where
  "duration s = end_time s - start_time s"

definition busy_time :: "string \<Rightarrow> segment list \<Rightarrow> int" where
  "busy_time q sched =
     sum_list (map duration (filter (\<lambda>s. seg_pid s = q \<and> seg_pid s \<noteq> Idle) sched))"

text \<open>
  A schedule tiles \<open>[0, makespan)\<close>: it is non-empty, starts at 0, every segment ends
  after it starts, and each segment ends where the next one starts.
\<close>

fun contiguous :: "segment list \<Rightarrow> bool" where
  "contiguous [] = True"
| "contiguous [s] = True"
| "contiguous (s # s' # rest) = (end_time s = start_time s' \<and> contiguous (s' # rest))"

definition tiles :: "segment list \<Rightarrow> bool" where
  "tiles sched \<longleftrightarrow>
     sched \<noteq> [] \<and> start_time (hd sched) = 0 \<and>
     list_all (\<lambda>s. start_time s < end_time s) sched \<and> contiguous sched"

text \<open>
  Conservation of burst time, and the end of the last segment that carries a pid.
\<close>

definition conserves :: "process list \<Rightarrow> segment list \<Rightarrow> bool" where
  "conserves ps sched \<longleftrightarrow> (\<forall>p\<in>set ps. busy_time (pid p) sched = burst_time p)"

definition last_end :: "string \<Rightarrow> segment list \<Rightarrow> int option" where
  "last_end q sched =
     (let xs = filter (\<lambda>s. seg_pid s = q) sched
      in if xs = [] then None else Some (end_time (last xs)))"

text \<open>
  The equations and bounds of a metrics row, and the tie between a table and a schedule:
  the completion time of a row is the end of the last segment of its pid.
\<close>

definition metrics_consistent :: "metrics_row list \<Rightarrow> bool" where
  "metrics_consistent m \<longleftrightarrow>
     (\<forall>r\<in>set m.
        turnaround_time r = completion_time r - arrival_time r \<and>
        waiting_time r = turnaround_time r - burst_time r \<and>
        burst_time r \<le> turnaround_time r \<and> 0 \<le> waiting_time r)"

definition completion_from_schedule :: "segment list \<Rightarrow> metrics_row list \<Rightarrow> bool" where
  "completion_from_schedule sched m \<longleftrightarrow>
     (\<forall>r\<in>set m. last_end (pid r) sched = Some (completion_time r))"

subsection \<open>Reachable states of the loops\<close>




subsection \<open>Calls on the store\<close>

text \<open>
  A column of a frame by name, and the metrics table a frame holds; the normal return of a
  call that may raise.
\<close>

definition column :: "frame \<Rightarrow> string \<Rightarrow> int list" where
  "column f name = (case map_of (cols f) name of None \<Rightarrow> [] | Some vals \<Rightarrow> vals)"

definition frame_table :: "frame \<Rightarrow> metrics_row list" where
  "frame_table f =
     metrics_frame (rows f) (column f ''completion_time'') (column f ''turnaround_time'')
       (column f ''waiting_time'')"

definition returned :: "(error + 'a) option \<Rightarrow> 'a option" where
  "returned x = (case x of Some (Inr r) \<Rightarrow> Some r | _ \<Rightarrow> None)"

text \<open>
  A call is repeatable on a store and a reference when, if it returns, every object of the
  store before the call is unchanged (the object at the reference among them) and a second
  call on the same reference returns the same schedule and a metrics frame equal to the
  first.
\<close>

definition repeatable ::
  "(heap \<Rightarrow> ref \<Rightarrow> ((segment list \<times> ref) \<times> heap) option) \<Rightarrow> heap \<Rightarrow> ref \<Rightarrow> bool" where
  "repeatable call h processes \<longleftrightarrow>
     (\<forall>sched m h1. call h processes = Some ((sched, m), h1) \<longrightarrow>
        take (length h) h1 = h \<and> h1 ! processes = h ! processes \<and>
        (\<exists>m' h2. call h1 processes = Some ((sched, m'), h2) \<and> h2 ! m' = h1 ! m \<and>
           h2 ! processes = h ! processes))"

subsection \<open>Invariants and measures of the loops\<close>

text \<open>
  \<open>chain a sched b\<close>: the segments of \<open>sched\<close> lead from \<open>a\<close> to \<open>b\<close> without gap or
  overlap, each of positive length. \<open>ids_ok\<close>: unique pids, none of them the idle marker.
\<close>

fun chain :: "int \<Rightarrow> segment list \<Rightarrow> int \<Rightarrow> bool" where
  "chain a [] b = (a = b)"
| "chain a (s # rest) b = (start_time s = a \<and> start_time s < end_time s \<and> chain (end_time s) rest b)"

definition ids_ok :: "process list \<Rightarrow> bool" where
  "ids_ok df \<longleftrightarrow> distinct (map pid df) \<and> Idle \<notin> pid ` set df"

text \<open>
  The invariant of the \<^verbatim>\<open>for\<close> loop of \<open>fcfs\<close> after \<open>k\<close> iterations.
\<close>

definition fcfs_inv :: "process list \<Rightarrow> nat \<Rightarrow> fcfs_state \<Rightarrow> bool" where
  "fcfs_inv df k st \<longleftrightarrow>
     length (f_completion_time st) = length df \<and>
     length (f_turnaround_time st) = length df \<and>
     length (f_waiting_time st) = length df \<and>
     chain 0 (f_schedule st) (f_current_time st) \<and>
     (0 < k \<longrightarrow> f_schedule st \<noteq> []) \<and>
     (\<forall>i<k. f_turnaround_time st ! i = f_completion_time st ! i - arrival_time (df ! i) \<and>
            f_waiting_time st ! i = f_turnaround_time st ! i - burst_time (df ! i) \<and>
            arrival_time (df ! i) + burst_time (df ! i) \<le> f_completion_time st ! i) \<and>
     (ids_ok df \<longrightarrow>
        (\<forall>i<length df.
           busy_time (pid (df ! i)) (f_schedule st) = (if i < k then burst_time (df ! i) else 0) \<and>
           (i < k \<longrightarrow> last_end (pid (df ! i)) (f_schedule st) = Some (f_completion_time st ! i))))"

text \<open>
  The invariant of the loop of \<open>sjf\<close> and the measure that decreases with every
  iteration: twice the number of uncompleted processes, plus one when no process is ready.
\<close>

definition sjf_inv :: "process list \<Rightarrow> sjf_state \<Rightarrow> bool" where
  "sjf_inv df st \<longleftrightarrow>
     length (s_is_completed st) = length df \<and>
     length (s_completion_time st) = length df \<and>
     length (s_turnaround_time st) = length df \<and>
     length (s_waiting_time st) = length df \<and>
     s_completed st = length (filter (\<lambda>b. b) (s_is_completed st)) \<and>
     chain 0 (s_schedule st) (s_current_time st) \<and>
     (s_schedule st = [] \<longrightarrow> s_completed st = 0) \<and>
     (\<forall>i<length df. s_is_completed st ! i \<longrightarrow>
        s_turnaround_time st ! i = s_completion_time st ! i - arrival_time (df ! i) \<and>
        s_waiting_time st ! i = s_turnaround_time st ! i - burst_time (df ! i) \<and>
        arrival_time (df ! i) + burst_time (df ! i) \<le> s_completion_time st ! i) \<and>
     (ids_ok df \<longrightarrow>
        (\<forall>i<length df.
           busy_time (pid (df ! i)) (s_schedule st) =
             (if s_is_completed st ! i then burst_time (df ! i) else 0) \<and>
           (s_is_completed st ! i \<longrightarrow>
              last_end (pid (df ! i)) (s_schedule st) = Some (s_completion_time st ! i))))"

definition sjf_measure :: "process list \<Rightarrow> sjf_state \<Rightarrow> nat" where
  "sjf_measure df st =
     2 * (length df - s_completed st) + (if sjf_select df st = None then 1 else 0)"

text \<open>
  The invariant of the loop of \<open>round_robin\<close>, in four parts: the shape of the lists, the
  ready queue (exactly the arrived processes with remaining burst, each once), the clock
  and the schedule, and (for good ids) the time each process has had. The measure is twice
  the remaining work, plus one when the queue is empty.
\<close>

definition rr_shape :: "process list \<Rightarrow> rr_state \<Rightarrow> bool" where
  "rr_shape df st \<longleftrightarrow>
     length (r_remaining_burst_time st) = length df \<and>
     length (r_completion_time st) = length df \<and>
     (\<forall>i<length df. 0 \<le> r_remaining_burst_time st ! i \<and>
                    r_remaining_burst_time st ! i \<le> burst_time (df ! i))"

definition rr_queue :: "process list \<Rightarrow> rr_state \<Rightarrow> bool" where
  "rr_queue df st \<longleftrightarrow>
     distinct (r_ready_queue st) \<and>
     (\<forall>i. i \<in> set (r_ready_queue st) \<longrightarrow>
        i < length df \<and> 0 < r_remaining_burst_time st ! i \<and>
        arrival_time (df ! i) \<le> r_current_time st) \<and>
     (\<forall>i<length df. arrival_time (df ! i) \<le> r_current_time st \<and>
                    0 < r_remaining_burst_time st ! i \<longrightarrow> i \<in> set (r_ready_queue st))"

definition rr_clock :: "process list \<Rightarrow> rr_state \<Rightarrow> bool" where
  "rr_clock df st \<longleftrightarrow>
     chain 0 (r_schedule st) (r_current_time st) \<and>
     (r_schedule st = [] \<longrightarrow>
        (\<forall>i<length df. r_remaining_burst_time st ! i = burst_time (df ! i))) \<and>
     (\<forall>i<length df. r_remaining_burst_time st ! i < burst_time (df ! i) \<longrightarrow>
        arrival_time (df ! i) + (burst_time (df ! i) - r_remaining_burst_time st ! i)
          \<le> r_current_time st) \<and>
     (\<forall>i<length df. r_remaining_burst_time st ! i = 0 \<longrightarrow>
        arrival_time (df ! i) + burst_time (df ! i) \<le> r_completion_time st ! i)"

definition rr_ids :: "process list \<Rightarrow> rr_state \<Rightarrow> bool" where
  "rr_ids df st \<longleftrightarrow>
     (\<forall>i<length df.
        busy_time (pid (df ! i)) (r_schedule st) + r_remaining_burst_time st ! i =
          burst_time (df ! i) \<and>
        (r_remaining_burst_time st ! i = 0 \<longrightarrow>
           last_end (pid (df ! i)) (r_schedule st) = Some (r_completion_time st ! i)))"

definition rr_inv :: "process list \<Rightarrow> rr_state \<Rightarrow> bool" where
  "rr_inv df st \<longleftrightarrow>
     rr_shape df st \<and> rr_queue df st \<and> rr_clock df st \<and> (ids_ok df \<longrightarrow> rr_ids df st)"

definition rr_measure :: "rr_state \<Rightarrow> nat" where
  "rr_measure st =
     2 * nat (sum_list (r_remaining_burst_time st)) + (if r_ready_queue st = [] then 1 else 0)"


text \<open>
  The invariant of the loop of \<open>priority_scheduling\<close>, in both modes; \<open>prio_prev\<close> is what
  makes extending the last segment sound: an uncompleted previous process has arrived and
  owns the last segment. The measure orders states by the number of uncompleted processes,
  then by the number of uncompleted processes still to arrive.
\<close>

definition prio_shape :: "process list \<Rightarrow> prio_state \<Rightarrow> bool" where
  "prio_shape df st \<longleftrightarrow>
     length (p_remaining_burst_time st) = length df \<and>
     length (p_completion_time st) = length df \<and>
     length (p_is_completed st) = length df \<and>
     p_completed st = length (filter (\<lambda>b. b) (p_is_completed st)) \<and>
     (\<forall>i<length df.
        (p_is_completed st ! i \<longrightarrow> p_remaining_burst_time st ! i = 0) \<and>
        (\<not> p_is_completed st ! i \<longrightarrow> 0 < p_remaining_burst_time st ! i) \<and>
        p_remaining_burst_time st ! i \<le> burst_time (df ! i))"

definition prio_clock :: "process list \<Rightarrow> prio_state \<Rightarrow> bool" where
  "prio_clock df st \<longleftrightarrow>
     chain 0 (p_schedule st) (p_current_time st) \<and>
     (p_schedule st = [] \<longrightarrow> p_completed st = 0) \<and>
     (\<forall>i<length df. p_remaining_burst_time st ! i < burst_time (df ! i) \<longrightarrow>
        arrival_time (df ! i) + (burst_time (df ! i) - p_remaining_burst_time st ! i)
          \<le> p_current_time st) \<and>
     (\<forall>i<length df. p_is_completed st ! i \<longrightarrow>
        arrival_time (df ! i) + burst_time (df ! i) \<le> p_completion_time st ! i)"

definition prio_prev :: "process list \<Rightarrow> bool \<Rightarrow> prio_state \<Rightarrow> bool" where
  "prio_prev df preemptive st \<longleftrightarrow>
     (\<not> preemptive \<longrightarrow> p_prev_process st = None) \<and>
     (\<forall>p. p_prev_process st = Some p \<longrightarrow>
        p < length df \<and>
        (\<not> p_is_completed st ! p \<longrightarrow>
           p_schedule st \<noteq> [] \<and> seg_pid (last (p_schedule st)) = pid (df ! p) \<and>
           arrival_time (df ! p) \<le> p_current_time st))"

definition prio_ids :: "process list \<Rightarrow> prio_state \<Rightarrow> bool" where
  "prio_ids df st \<longleftrightarrow>
     (\<forall>i<length df.
        busy_time (pid (df ! i)) (p_schedule st) + p_remaining_burst_time st ! i =
          burst_time (df ! i) \<and>
        (p_is_completed st ! i \<longrightarrow>
           last_end (pid (df ! i)) (p_schedule st) = Some (p_completion_time st ! i)))"

definition prio_inv :: "process list \<Rightarrow> bool \<Rightarrow> prio_state \<Rightarrow> bool" where
  "prio_inv df preemptive st \<longleftrightarrow>
     prio_shape df st \<and> prio_clock df st \<and> prio_prev df preemptive st \<and>
     (ids_ok df \<longrightarrow> prio_ids df st)"

definition prio_measure :: "process list \<Rightarrow> prio_state \<Rightarrow> nat" where
  "prio_measure df st =
     (length df - p_completed st) * (length df + 1) +
     card {i. i < length df \<and> \<not> p_is_completed st ! i \<and>
              p_current_time st < arrival_time (df ! i)}"

text \<open>
  The state after a slice of length \<open>e\<close> of process \<open>sel\<close>, common to both modes.
\<close>

definition prio_after ::
  "prio_state \<Rightarrow> nat \<Rightarrow> int \<Rightarrow> segment list \<Rightarrow> nat option \<Rightarrow> prio_state" where
  "prio_after st sel e sched' pv =
     (let st1 = st\<lparr>p_schedule := sched',
                   p_current_time := p_current_time st + e,
                   p_remaining_burst_time := (p_remaining_burst_time st)
                      [sel := p_remaining_burst_time st ! sel - e],
                   p_prev_process := pv\<rparr>
      in if p_remaining_burst_time st ! sel - e = 0
         then st1\<lparr>p_completion_time := (p_completion_time st)[sel := p_current_time st + e],
                  p_is_completed := (p_is_completed st)[sel := True],
                  p_completed := p_completed st + 1\<rparr>
         else st1)"

text \<open>
  What every returned pair of schedule and table satisfies.
\<close>

definition run_post :: "process list \<Rightarrow> segment list \<Rightarrow> metrics_row list \<Rightarrow> bool" where
  "run_post df sched m \<longleftrightarrow>
     tiles sched \<and> metrics_consistent m \<and> map process.truncate m = df \<and>
     (ids_ok df \<longrightarrow> conserves df sched \<and> completion_from_schedule sched m)"

text \<open>
  The result of each entry point as a function of the frame it is called on.
\<close>

definition with_metrics :: "frame \<Rightarrow> int list \<Rightarrow> int list \<Rightarrow> int list \<Rightarrow> frame" where
  "with_metrics f ct tat wt =
     f\<lparr>cols := AList.update ''waiting_time'' wt
                (AList.update ''turnaround_time'' tat
                  (AList.update ''completion_time'' ct (cols f)))\<rparr>"

definition fcfs_run :: "frame \<Rightarrow> (segment list \<times> frame) option" where
  "fcfs_run f0 =
     (let f = frame_sort_values f0;
          st = fold (fcfs_body (rows f)) [0..<length (rows f)] (fcfs_init (length (rows f)))
      in Some (f_schedule st,
               with_metrics f (f_completion_time st) (f_turnaround_time st)
                 (f_waiting_time st)))"

definition sjf_run :: "frame \<Rightarrow> (segment list \<times> frame) option" where
  "sjf_run f =
     (case sjf_while (rows f) (sjf_init (length (rows f))) of
        None \<Rightarrow> None
      | Some st \<Rightarrow>
          Some (s_schedule st,
                with_metrics f (s_completion_time st) (s_turnaround_time st)
                  (s_waiting_time st)))"

definition rr_run_frame :: "int \<Rightarrow> frame \<Rightarrow> (segment list \<times> frame) option" where
  "rr_run_frame tq f =
     (case rr_while (rows f) tq (rr_init (rows f)) of
        None \<Rightarrow> None
      | Some st \<Rightarrow>
          (let tat = map (\<lambda>i. r_completion_time st ! i - arrival_time (rows f ! i))
                       [0..<length (rows f)];
               wt = map (\<lambda>i. tat ! i - burst_time (rows f ! i)) [0..<length (rows f)]
           in Some (r_schedule st, with_metrics f (r_completion_time st) tat wt)))"

definition prio_run_frame :: "bool \<Rightarrow> frame \<Rightarrow> (segment list \<times> frame) option" where
  "prio_run_frame pre f =
     (case prio_while (rows f) pre (prio_init (rows f)) of
        Some (Inr st) \<Rightarrow>
          (let tat = map (\<lambda>i. p_completion_time st ! i - arrival_time (rows f ! i))
                       [0..<length (rows f)];
               wt = map (\<lambda>i. tat ! i - burst_time (rows f ! i)) [0..<length (rows f)]
           in Some (p_schedule st, with_metrics f (p_completion_time st) tat wt))
      | _ \<Rightarrow> None)"

subsection \<open>Example inputs\<close>

definition rr_example :: "process list" where
  "rr_example =
     [\<lparr>pid = ''P1'', arrival_time = 0, burst_time = 10, priority = 1\<rparr>,
      \<lparr>pid = ''P2'', arrival_time = 2, burst_time = 1, priority = 1\<rparr>,
      \<lparr>pid = ''P3'', arrival_time = 1, burst_time = 1, priority = 1\<rparr>]"

definition sjf_example :: "process list" where
  "sjf_example =
     [\<lparr>pid = ''P1'', arrival_time = 1, burst_time = 2, priority = 1\<rparr>,
      \<lparr>pid = ''P2'', arrival_time = 0, burst_time = 2, priority = 1\<rparr>,
      \<lparr>pid = ''P3'', arrival_time = 0, burst_time = 1, priority = 1\<rparr>]"

definition sjf_example_state :: sjf_state where
  "sjf_example_state =
     \<lparr>s_current_time = 1, s_completed = 1, s_completion_time = [0, 0, 1],
      s_turnaround_time = [0, 0, 1], s_waiting_time = [0, 0, 0],
      s_is_completed = [False, False, True],
      s_schedule = [\<lparr>seg_pid = ''P3'', start_time = 0, end_time = 1\<rparr>]\<rparr>"

definition prio_example :: "process list" where
  "prio_example =
     [\<lparr>pid = ''P1'', arrival_time = 0, burst_time = 10, priority = 2\<rparr>,
      \<lparr>pid = ''P2'', arrival_time = 3, burst_time = 4, priority = 1\<rparr>]"

definition prio_example_state :: prio_state where
  "prio_example_state =
     \<lparr>p_current_time = 3, p_completion_time = [0, 0], p_remaining_burst_time = [7, 4],
      p_is_completed = [False, False],
      p_schedule = [\<lparr>seg_pid = ''P1'', start_time = 0, end_time = 3\<rparr>],
      p_completed = 0, p_prev_process = Some 0\<rparr>"

definition gap_example :: "process list" where
  "gap_example =
     [\<lparr>pid = ''P1'', arrival_time = 2, burst_time = 3, priority = 2\<rparr>,
      \<lparr>pid = ''P2'', arrival_time = 0, burst_time = 1, priority = 3\<rparr>,
      \<lparr>pid = ''P3'', arrival_time = 9, burst_time = 2, priority = 1\<rparr>]"

definition idle_named_example :: "process list" where
  "idle_named_example = [\<lparr>pid = ''Idle'', arrival_time = 1, burst_time = 1, priority = 1\<rparr>]"



definition overflow_example :: "process list" where
  "overflow_example =
     [\<lparr>pid = ''P1'', arrival_time = 0, burst_time = 2 ^ 62, priority = 1\<rparr>,
      \<lparr>pid = ''P2'', arrival_time = 0, burst_time = 2 ^ 62, priority = 1\<rparr>]"

definition idle_pid_example :: "process list" where
  "idle_pid_example =
     [\<lparr>pid = ''Idle'', arrival_time = 0, burst_time = 1, priority = 1\<rparr>,
      \<lparr>pid = ''P2'', arrival_time = 5, burst_time = 1, priority = 1\<rparr>]"

definition same_pid_example :: "process list" where
  "same_pid_example =
     [\<lparr>pid = ''P1'', arrival_time = 0, burst_time = 1, priority = 1\<rparr>,
      \<lparr>pid = ''P1'', arrival_time = 0, burst_time = 2, priority = 1\<rparr>]"

definition zero_burst_example :: "process list" where
  "zero_burst_example = [\<lparr>pid = ''P1'', arrival_time = 1, burst_time = 0, priority = 1\<rparr>]"

definition example_heap :: heap where
  "example_heap = [\<lparr>rows = gap_example, cols = []\<rparr>]"

section \<open>Facts about the scans\<close>

lemma scan_min_Suc:
  "scan_min cond key (Suc n) =
     (case scan_min cond key n of (best, idx) \<Rightarrow>
        if cond n \<and> (case best of None \<Rightarrow> True | Some b \<Rightarrow> key n < b)
        then (Some (key n), Some n) else (best, idx))"
  by (simp add: scan_min_def)

lemma scan_min_char:
  "scan_min cond key n = (best, idx) \<Longrightarrow>
     (case idx of
        None \<Rightarrow> best = None \<and> (\<forall>j<n. \<not> cond j)
      | Some i \<Rightarrow> i < n \<and> cond i \<and> best = Some (key i) \<and>
          (\<forall>j<n. cond j \<longrightarrow> key i \<le> key j) \<and> (\<forall>j<i. cond j \<longrightarrow> key i < key j))"
proof (induction n arbitrary: best idx)
  case 0
  then show ?case by (simp add: scan_min_def)
next
  case (Suc n)
  obtain b0 i0 where prev: "scan_min cond key n = (b0, i0)"
    by (cases "scan_min cond key n")
  note IH = Suc.IH [OF prev]
  show ?case
  proof (cases "cond n \<and> (case b0 of None \<Rightarrow> True | Some b \<Rightarrow> key n < b)")
    case True
    then have eq: "best = Some (key n)" "idx = Some n"
      using Suc.prems prev by (simp_all add: scan_min_Suc)
    show ?thesis
      using True IH unfolding eq
      by (cases i0) (auto simp: less_Suc_eq split: option.splits)
  next
    case False
    then have eq: "best = b0" "idx = i0"
      using Suc.prems prev by (auto simp add: scan_min_Suc)
    show ?thesis
      using False IH unfolding eq
      by (cases i0) (auto simp: less_Suc_eq split: option.splits)
  qed
qed

lemma scan_min_None_iff:
  "snd (scan_min cond key n) = None \<longleftrightarrow> (\<forall>j<n. \<not> cond j)"
  using scan_min_char [OF surjective_pairing, of cond key n]
  by (auto split: option.splits)

lemma scan_min_fst_None_iff:
  "fst (scan_min cond key n) = None \<longleftrightarrow> (\<forall>j<n. \<not> cond j)"
  using scan_min_char [OF surjective_pairing, of cond key n]
  by (auto split: option.splits)

lemma scan_min_snd_Some:
  "snd (scan_min cond key n) = Some i \<Longrightarrow>
     i < n \<and> cond i \<and> (\<forall>j<n. cond j \<longrightarrow> key i \<le> key j) \<and> (\<forall>j<i. cond j \<longrightarrow> key i < key j)"
  using scan_min_char [OF surjective_pairing, of cond key n]
  by (auto split: option.splits)

lemma scan_min_fst_Some:
  "fst (scan_min cond key n) = Some a \<Longrightarrow>
     (\<exists>i<n. cond i \<and> key i = a) \<and> (\<forall>j<n. cond j \<longrightarrow> a \<le> key j)"
  using scan_min_char [OF surjective_pairing, of cond key n]
  by (auto split: option.splits)

lemma fold_admit:
  assumes "\<And>j q. f j q = (if C j \<and> j \<notin> set q then q @ [j] else q)"
  shows "fold f [0..<n] q = q @ filter (\<lambda>j. C j \<and> j \<notin> set q) [0..<n]"
proof (induction n)
  case 0
  show ?case by simp
next
  case (Suc n)
  have "n \<notin> set (filter (\<lambda>j. C j \<and> j \<notin> set q) [0..<n])" by simp
  then show ?case
    using Suc by (simp add: assms)
qed

lemma future_arrival_fold:
  "fold (\<lambda>i next_arrival.
             if C i
             then (case next_arrival of
                     None \<Rightarrow> Some (key i :: int)
                   | Some a \<Rightarrow> Some (min a (key i)))
             else next_arrival)
       [0..<n] None =
   (if key ` {j \<in> {0..<n}. C j} = {} then None else Some (Min (key ` {j \<in> {0..<n}. C j})))"
proof -
  define S where "S = (\<lambda>n. key ` {j \<in> {0..<n}. C j})"
  define F where "F = (\<lambda>n. fold (\<lambda>i next_arrival.
             if C i
             then (case next_arrival of
                     None \<Rightarrow> Some (key i)
                   | Some a \<Rightarrow> Some (min a (key i :: int)))
             else next_arrival) [0..<n] None)"
  have S0: "S 0 = {}" by (simp add: S_def)
  have SS: "S (Suc n) = (if C n then insert (key n) (S n) else S n)" for n
    by (auto simp: S_def less_Suc_eq)
  have fin: "finite (S n)" for n by (simp add: S_def)
  have F0: "F 0 = None" by (simp add: F_def)
  have FS: "F (Suc n) = (if C n then (case F n of None \<Rightarrow> Some (key n)
                   | Some a \<Rightarrow> Some (min a (key n))) else F n)" for n
    by (simp add: F_def)
  have "F n = (if S n = {} then None else Some (Min (S n)))"
  proof (induction n)
    case 0
    show ?case by (simp add: F0 S0)
  next
    case (Suc n)
    show ?case
    proof (cases "C n")
      case False
      then show ?thesis using Suc by (simp only: FS SS if_False)
    next
      case True
      show ?thesis
      proof (cases "S n = {}")
        case e: True
        then have "F n = None" using Suc by simp
        then show ?thesis using True e by (simp add: FS SS)
      next
        case ne: False
        have "Min (insert (key n) (S n)) = min (key n) (Min (S n))"
          using fin ne by (rule Min_insert)
        moreover have "F n = Some (Min (S n))" using Suc ne by simp
        ultimately show ?thesis using True by (simp add: FS SS min.commute)
      qed
    qed
  qed
  then show ?thesis by (simp only: F_def S_def)
qed

lemma future_arrival_spec:
  "future_arrival df st sel =
     (if future_arrivals df st sel = {} then None else Some (Min (future_arrivals df st sel)))"
  unfolding future_arrival_def future_arrivals_def by (rule future_arrival_fold)

lemma sjf_select_ready:
  assumes "sjf_ready df st k"
  shows "\<exists>mi. sjf_select df st = Some mi \<and> sjf_ready df st mi \<and>
           (\<forall>j. sjf_ready df st j \<longrightarrow>
                burst_time (df ! mi) \<le> burst_time (df ! j) \<and>
                (burst_time (df ! j) = burst_time (df ! mi) \<longrightarrow> mi \<le> j)) \<and>
           sjf_body df st =
             Some (st\<lparr>s_schedule := s_schedule st @
                         [\<lparr>seg_pid = pid (df ! mi), start_time = s_current_time st,
                           end_time = s_current_time st + burst_time (df ! mi)\<rparr>],
                      s_completion_time := (s_completion_time st)
                         [mi := s_current_time st + burst_time (df ! mi)],
                      s_turnaround_time := (s_turnaround_time st)
                         [mi := s_current_time st + burst_time (df ! mi) - arrival_time (df ! mi)],
                      s_waiting_time := (s_waiting_time st)
                         [mi := s_current_time st + burst_time (df ! mi) - arrival_time (df ! mi)
                                - burst_time (df ! mi)],
                      s_current_time := s_current_time st + burst_time (df ! mi),
                      s_is_completed := (s_is_completed st)[mi := True],
                      s_completed := s_completed st + 1\<rparr>)"
proof -
  have "sjf_select df st \<noteq> None"
    using assms unfolding sjf_select_def sjf_ready_def scan_min_None_iff by blast
  then obtain mi where mi: "sjf_select df st = Some mi" by blast
  note c = scan_min_snd_Some [OF mi [unfolded sjf_select_def]]
  have r: "sjf_ready df st mi" using c by (simp add: sjf_ready_def)
  have m: "\<forall>j. sjf_ready df st j \<longrightarrow>
                burst_time (df ! mi) \<le> burst_time (df ! j) \<and>
                (burst_time (df ! j) = burst_time (df ! mi) \<longrightarrow> mi \<le> j)"
  proof (intro allI impI conjI)
    fix j assume j: "sjf_ready df st j"
    then show "burst_time (df ! mi) \<le> burst_time (df ! j)"
      using c by (simp add: sjf_ready_def)
    assume e: "burst_time (df ! j) = burst_time (df ! mi)"
    show "mi \<le> j"
    proof (rule ccontr)
      assume "\<not> mi \<le> j"
      then have "j < mi" by simp
      then have "burst_time (df ! mi) < burst_time (df ! j)"
        using c j by (simp add: sjf_ready_def)
      then show False using e by simp
    qed
  qed
  show ?thesis
    using mi r m by (simp add: sjf_body_def Let_def)
qed

section \<open>Empty input and the ready queue of Round Robin\<close>

text \<open>
  Claim C2, as the code has it. None of the four entry points checks for an empty process
  set: with \<open>n = 0\<close> the \<^verbatim>\<open>for\<close> loop of \<open>fcfs\<close> has no iteration, the loops of \<open>sjf\<close> and
  \<open>priority_scheduling\<close> exit at once (\<^verbatim>\<open>completed != n\<close> is false) and \<open>round_robin\<close>
  breaks on the empty queue (\<^verbatim>\<open>sum([]) > 0\<close> is false). Each returns the empty schedule and
  the empty metrics table, for every time quantum and in both priority modes. (The check
  for an empty process set is in the caller, \<^verbatim>\<open>run_scheduler\<close> of \<^verbatim>\<open>app.py\<close>.)
\<close>

theorem empty_input_returns_empty_result:
  "fcfs [] = ([], []) \<and> sjf [] = Some ([], []) \<and>
   round_robin [] time_quantum = Some ([], []) \<and>
   priority_scheduling [] preemptive = Some (Inr ([], []))"
  by (simp add: fcfs_def sjf_def round_robin_def priority_scheduling_def sort_values_def
      fcfs_init_def sjf_init_def rr_init_def prio_init_def metrics_frame_def
      sjf_while.simps rr_while.simps prio_while.simps)

text \<open>
  Claim C2 as stated fails: on the empty process set every entry point returns a result
  (the empty schedule and the empty table) instead of rejecting the input.
\<close>

theorem empty_input_not_rejected:
  "snd (fcfs []) = [] \<and> sjf [] \<noteq> None \<and> round_robin [] 2 \<noteq> None \<and>
   priority_scheduling [] False = Some (Inr ([], [])) \<and>
   priority_scheduling [] True = Some (Inr ([], []))"
  by code_simp

text \<open>
  Claim C1, as the code has it. When \<open>round_robin\<close> pops \<open>i\<close> from the head of the ready
  queue (leaving \<open>rest\<close>), runs it for a slice, and \<open>i\<close> still has remaining burst time, the
  loop continues from a state whose ready queue is \<open>rest\<close>, followed by every process \<open>j\<close>
  with \<open>arrival_time \<le>\<close> the new clock, remaining burst \<open>> 0\<close>, not already queued and
  distinct from \<open>i\<close>, in ascending order of the index \<open>j\<close> (the order of the rows of the
  input), followed by \<open>i\<close> itself at the tail.
\<close>

theorem rr_arrivals_before_requeue:
  assumes "r_ready_queue st = i # rest"
    and "st' = rr_exec df time_quantum i rest st"
    and "r_remaining_burst_time st' ! i > 0"
  shows "rr_while df time_quantum st = rr_while df time_quantum st' \<and>
         r_ready_queue st' =
           rest @
           filter (\<lambda>j. arrival_time (df ! j) \<le> r_current_time st' \<and>
                        r_remaining_burst_time st' ! j > 0 \<and> j \<notin> set rest \<and> j \<noteq> i)
             [0..<length df] @
           [i]"
proof -
  have loop: "rr_while df time_quantum st = rr_while df time_quantum st'"
    using assms(1,2) by (subst rr_while.simps) simp
  define t' where "t' = r_current_time st + min time_quantum (r_remaining_burst_time st ! i)"
  define rem' where "rem' = (r_remaining_burst_time st)
            [i := r_remaining_burst_time st ! i - min time_quantum (r_remaining_burst_time st ! i)]"
  have t: "r_current_time st' = t'" and r: "r_remaining_burst_time st' = rem'"
    using assms(2) by (simp_all add: rr_exec_def Let_def t'_def rem'_def)
  have pos: "rem' ! i > 0" using assms(3) r by simp
  have q: "r_ready_queue st' =
      fold (\<lambda>j q. if arrival_time (df ! j) \<le> t' \<and> rem' ! j > 0 \<and> j \<notin> set q \<and> j \<noteq> i
                   then q @ [j] else q) [0..<length df] rest @ [i]"
    using assms(2) pos by (simp add: rr_exec_def Let_def t'_def rem'_def)
  have "fold (\<lambda>j q. if arrival_time (df ! j) \<le> t' \<and> rem' ! j > 0 \<and> j \<notin> set q \<and> j \<noteq> i
                   then q @ [j] else q) [0..<length df] rest =
        rest @ filter (\<lambda>j. (arrival_time (df ! j) \<le> t' \<and> rem' ! j > 0 \<and> j \<noteq> i) \<and> j \<notin> set rest)
          [0..<length df]"
    by (rule fold_admit) auto
  also have "filter (\<lambda>j. (arrival_time (df ! j) \<le> t' \<and> rem' ! j > 0 \<and> j \<noteq> i) \<and> j \<notin> set rest)
          [0..<length df] =
     filter (\<lambda>j. arrival_time (df ! j) \<le> t' \<and> rem' ! j > 0 \<and> j \<notin> set rest \<and> j \<noteq> i)
          [0..<length df]"
    by (rule filter_cong) auto
  finally show ?thesis using loop q t r by simp
qed

text \<open>
  The theorem at the input \<open>rr_example\<close> with quantum 3: after the first slice of \<open>P1\<close>
  (index 0) the queue is \<open>P2, P3, P1\<close>.
\<close>

theorem rr_arrivals_before_requeue_witness:
  "r_ready_queue (rr_init rr_example) = [0] \<and>
   r_remaining_burst_time (rr_exec rr_example 3 0 [] (rr_init rr_example)) ! 0 = 7 \<and>
   r_ready_queue (rr_exec rr_example 3 0 [] (rr_init rr_example)) = [1, 2, 0]"
proof -
  have a: "r_ready_queue (rr_init rr_example) = [0]" by code_simp
  have b: "r_remaining_burst_time (rr_exec rr_example 3 0 [] (rr_init rr_example)) ! 0 = 7"
    by code_simp
  have c: "r_remaining_burst_time (rr_exec rr_example 3 0 [] (rr_init rr_example)) ! 0 > 0"
    by (simp only: b)
  have d: "filter (\<lambda>j. arrival_time (rr_example ! j) \<le> r_current_time (rr_exec rr_example 3 0 [] (rr_init rr_example)) \<and>
                        r_remaining_burst_time (rr_exec rr_example 3 0 [] (rr_init rr_example)) ! j > 0 \<and> j \<notin> set [] \<and> j \<noteq> 0)
             [0..<length rr_example] = [1, 2]"
    by code_simp
  show ?thesis
    using rr_arrivals_before_requeue [OF a refl c, THEN conjunct2] a b d by simp
qed

text \<open>
  Claim C1 as stated fails on the order of admission: in \<open>rr_example\<close> both \<open>P2\<close>
  (index 1, arrival 2) and \<open>P3\<close> (index 2, arrival 1) arrive during the first slice of
  \<open>P1\<close>; the code queues \<open>P2\<close> before \<open>P3\<close>, although \<open>P3\<close> arrived first.
\<close>

theorem rr_admits_in_index_order_not_arrival_order:
  "r_ready_queue (rr_exec rr_example 3 0 [] (rr_init rr_example)) = [1, 2, 0] \<and>
   arrival_time (rr_example ! 2) < arrival_time (rr_example ! 1)"
  by code_simp

section \<open>Selection in SJF and the preemptive slice\<close>

text \<open>
  Claim C4, as the code has it. At every decision point of \<open>sjf\<close> at which some process
  has arrived and is not completed, the selected process \<open>mi\<close> has arrived, is not
  completed, and has minimum \<open>burst_time\<close> among such processes; among those sharing the
  minimum it is the one with the lowest index (first in the input order), since the scan
  replaces its candidate only on a strictly smaller burst time. The body runs the selected
  process to completion.
\<close>

theorem sjf_selects_min_burst_first_index:
  assumes "sjf_ready df st k"
  shows "\<exists>mi. sjf_select df st = Some mi \<and> sjf_ready df st mi \<and>
           (\<forall>j. sjf_ready df st j \<longrightarrow>
                burst_time (df ! mi) \<le> burst_time (df ! j) \<and>
                (burst_time (df ! j) = burst_time (df ! mi) \<longrightarrow> mi \<le> j)) \<and>
           (\<exists>st'. sjf_body df st = Some st' \<and>
              s_schedule st' = s_schedule st @
                 [\<lparr>seg_pid = pid (df ! mi), start_time = s_current_time st,
                   end_time = s_current_time st + burst_time (df ! mi)\<rparr>] \<and>
              s_is_completed st' = (s_is_completed st)[mi := True])"
proof -
  from sjf_select_ready [OF assms] obtain mi where
    "sjf_select df st = Some mi" "sjf_ready df st mi"
    "\<forall>j. sjf_ready df st j \<longrightarrow>
                burst_time (df ! mi) \<le> burst_time (df ! j) \<and>
                (burst_time (df ! j) = burst_time (df ! mi) \<longrightarrow> mi \<le> j)"
    and body: "sjf_body df st =
             Some (st\<lparr>s_schedule := s_schedule st @
                         [\<lparr>seg_pid = pid (df ! mi), start_time = s_current_time st,
                           end_time = s_current_time st + burst_time (df ! mi)\<rparr>],
                      s_completion_time := (s_completion_time st)
                         [mi := s_current_time st + burst_time (df ! mi)],
                      s_turnaround_time := (s_turnaround_time st)
                         [mi := s_current_time st + burst_time (df ! mi) - arrival_time (df ! mi)],
                      s_waiting_time := (s_waiting_time st)
                         [mi := s_current_time st + burst_time (df ! mi) - arrival_time (df ! mi)
                                - burst_time (df ! mi)],
                      s_current_time := s_current_time st + burst_time (df ! mi),
                      s_is_completed := (s_is_completed st)[mi := True],
                      s_completed := s_completed st + 1\<rparr>)"
    by blast
  then show ?thesis by (intro exI [of _ mi]) simp
qed

text \<open>
  The theorem at \<open>sjf_example\<close>, in the state reached after its first iteration.
\<close>

theorem sjf_selects_min_burst_first_index_witness:
  "sjf_ready sjf_example sjf_example_state 1 \<and>
   sjf_select sjf_example sjf_example_state = Some 0 \<and>
   sjf_body sjf_example (sjf_init 3) = Some sjf_example_state \<and>
   map seg_pid (s_schedule (the (sjf_body sjf_example sjf_example_state))) = [''P3'', ''P1'']"
proof -
  have r: "sjf_ready sjf_example sjf_example_state 1"
    unfolding sjf_ready_def by code_simp
  have s: "sjf_select sjf_example sjf_example_state = Some 0" by code_simp
  have b: "sjf_body sjf_example (sjf_init 3) = Some sjf_example_state" by code_simp
  from sjf_selects_min_burst_first_index [OF r] s
  obtain st' where "sjf_body sjf_example sjf_example_state = Some st'"
    "s_schedule st' = s_schedule sjf_example_state @
                 [\<lparr>seg_pid = pid (sjf_example ! 0), start_time = s_current_time sjf_example_state,
                   end_time = s_current_time sjf_example_state + burst_time (sjf_example ! 0)\<rparr>]"
    by auto
  then have "map seg_pid (s_schedule (the (sjf_body sjf_example sjf_example_state))) = [''P3'', ''P1'']"
    by (simp add: sjf_example_state_def sjf_example_def)
  then show ?thesis using r s b by simp
qed

text \<open>
  Claim C4 as stated fails on the tie-break: in \<open>sjf_example\<close>, at time 1 (after \<open>P3\<close>
  has run), \<open>P1\<close> (index 0, arrival 1) and \<open>P2\<close> (index 1, arrival 0) are both ready with
  burst time 2, and the code selects \<open>P1\<close>, not the earlier arrival \<open>P2\<close>.
\<close>

theorem sjf_tie_not_broken_by_arrival:
  "sjf_body sjf_example (sjf_init 3) = Some sjf_example_state \<and>
   sjf_select sjf_example sjf_example_state = Some 0 \<and>
   sjf_ready sjf_example sjf_example_state 1 \<and>
   burst_time (sjf_example ! 1) = burst_time (sjf_example ! 0) \<and>
   arrival_time (sjf_example ! 1) < arrival_time (sjf_example ! 0)"
  unfolding sjf_ready_def by code_simp

text \<open>
  Claim C8. Preemptive priority scheduling on \<open>P1\<close> (arrival 0, burst 10, priority 2) and
  \<open>P2\<close> (arrival 3, burst 4, priority 1) returns exactly the segments \<open>P1:0-3\<close>,
  \<open>P2:3-7\<close>, \<open>P1:7-14\<close>, with completion time 14 for \<open>P1\<close> and 7 for \<open>P2\<close>. In every
  iteration of the preemptive branch the slice lasts \<open>slice_length\<close>: the minimum of the
  remaining burst and the distance to the earliest arrival after the current time among
  the other uncompleted processes (the remaining burst when there is none); and the loop
  continues with the whole body, selection first, from the state after the slice.
\<close>

theorem preemptive_priority_example_and_slices:
  "priority_scheduling prio_example True =
     Some (Inr ([\<lparr>seg_pid = ''P1'', start_time = 0, end_time = 3\<rparr>,
                 \<lparr>seg_pid = ''P2'', start_time = 3, end_time = 7\<rparr>,
                 \<lparr>seg_pid = ''P1'', start_time = 7, end_time = 14\<rparr>],
                [\<lparr>pid = ''P1'', arrival_time = 0, burst_time = 10, priority = 2,
                  completion_time = 14, turnaround_time = 14, waiting_time = 4\<rparr>,
                 \<lparr>pid = ''P2'', arrival_time = 3, burst_time = 4, priority = 1,
                  completion_time = 7, turnaround_time = 4, waiting_time = 0\<rparr>])) \<and>
   (\<forall>df st sel st'.
      prio_select df st = Some sel \<longrightarrow> prio_body df True st = Some (Inr st') \<longrightarrow>
        p_current_time st' = p_current_time st + slice_length df st sel \<and>
        p_remaining_burst_time st' =
          (p_remaining_burst_time st)
             [sel := p_remaining_burst_time st ! sel - slice_length df st sel] \<and>
        (p_completed st \<noteq> length df \<longrightarrow>
           prio_while df True st = prio_while df True st'))"
proof (intro conjI allI impI)
  show "priority_scheduling prio_example True =
     Some (Inr ([\<lparr>seg_pid = ''P1'', start_time = 0, end_time = 3\<rparr>,
                 \<lparr>seg_pid = ''P2'', start_time = 3, end_time = 7\<rparr>,
                 \<lparr>seg_pid = ''P1'', start_time = 7, end_time = 14\<rparr>],
                [\<lparr>pid = ''P1'', arrival_time = 0, burst_time = 10, priority = 2,
                  completion_time = 14, turnaround_time = 14, waiting_time = 4\<rparr>,
                 \<lparr>pid = ''P2'', arrival_time = 3, burst_time = 4, priority = 1,
                  completion_time = 7, turnaround_time = 4, waiting_time = 0\<rparr>]))"
    by code_simp
next
  fix df st sel st'
  assume sel: "prio_select df st = Some sel"
    and body: "prio_body df True st = Some (Inr st')"
  have e: "min (p_remaining_burst_time st ! sel)
             (case future_arrival df st sel of
                None \<Rightarrow> p_remaining_burst_time st ! sel
              | Some next_arrival \<Rightarrow> next_arrival - p_current_time st) =
           slice_length df st sel"
    by (simp add: future_arrival_spec slice_length_def)
  show "p_current_time st' = p_current_time st + slice_length df st sel"
    using body sel unfolding e [symmetric]
    by (auto simp: prio_body_def Let_def split: sum.splits if_splits)
  show "p_remaining_burst_time st' =
          (p_remaining_burst_time st)
             [sel := p_remaining_burst_time st ! sel - slice_length df st sel]"
    using body sel unfolding e [symmetric]
    by (auto simp: prio_body_def Let_def split: sum.splits if_splits)
  assume "p_completed st \<noteq> length df"
  then show "prio_while df True st = prio_while df True st'"
    using body by (subst prio_while.simps) simp
qed

text \<open>
  The general part of the theorem at the first iteration on \<open>prio_example\<close>: \<open>P1\<close> is
  selected, the only future arrival is at 3, and the slice lasts \<open>min 10 (3 - 0)\<close>.
\<close>

theorem preemptive_priority_example_and_slices_witness:
  "prio_select prio_example (prio_init prio_example) = Some 0 \<and>
   prio_body prio_example True (prio_init prio_example) = Some (Inr prio_example_state) \<and>
   future_arrivals prio_example (prio_init prio_example) 0 = {3} \<and>
   p_current_time prio_example_state = 0 + min 10 (3 - 0) \<and>
   prio_while prio_example True (prio_init prio_example) =
     prio_while prio_example True prio_example_state"
proof -
  have s: "prio_select prio_example (prio_init prio_example) = Some 0" by code_simp
  have b: "prio_body prio_example True (prio_init prio_example) = Some (Inr prio_example_state)"
    by code_simp
  have f: "future_arrivals prio_example (prio_init prio_example) 0 = {3}" by code_simp
  have c: "p_completed (prio_init prio_example) \<noteq> length prio_example" by code_simp
  have t: "p_current_time prio_example_state = 0 + min 10 (3 - 0)" by code_simp
  from preemptive_priority_example_and_slices
  have "prio_while prio_example True (prio_init prio_example) =
     prio_while prio_example True prio_example_state"
    using s b c by blast
  then show ?thesis using s b f t by simp
qed

section \<open>Schedules: tiling, busy time and completion\<close>

lemma chain_snoc [simp]:
  "chain a (xs @ [s]) c \<longleftrightarrow> chain a xs (start_time s) \<and> start_time s < end_time s \<and> end_time s = c"
  by (induction xs arbitrary: a) auto

lemma chain_set_last:
  "chain a xs b \<Longrightarrow> xs \<noteq> [] \<Longrightarrow> b < c \<Longrightarrow>
     chain a (butlast xs @ [(last xs)\<lparr>end_time := c\<rparr>]) c \<and> end_time (last xs) = b"
proof (induction xs rule: rev_induct)
  case Nil
  then show ?case by simp
next
  case (snoc x xs)
  then show ?case by simp
qed

lemma chain_contiguous: "chain a xs b \<Longrightarrow> contiguous xs"
  by (induction xs arbitrary: a rule: contiguous.induct) auto

lemma chain_positive: "chain a xs b \<Longrightarrow> list_all (\<lambda>s. start_time s < end_time s) xs"
  by (induction xs arbitrary: a) auto

lemma chain_tiles: "chain 0 xs b \<Longrightarrow> xs \<noteq> [] \<Longrightarrow> tiles xs"
  using chain_contiguous [of 0 xs b] chain_positive [of 0 xs b]
  unfolding tiles_def by (cases xs) simp_all

lemma busy_time_Nil [simp]: "busy_time q [] = 0"
  by (simp add: busy_time_def)

lemma busy_time_snoc [simp]:
  "busy_time q (xs @ [s]) =
     busy_time q xs + (if seg_pid s = q \<and> q \<noteq> Idle then duration s else 0)"
  by (auto simp: busy_time_def)

lemma last_end_Nil [simp]: "last_end q [] = None"
  by (simp add: last_end_def)

lemma last_end_snoc [simp]:
  "last_end q (xs @ [s]) = (if seg_pid s = q then Some (end_time s) else last_end q xs)"
  by (simp add: last_end_def)

lemma busy_time_set_last:
  "xs \<noteq> [] \<Longrightarrow>
   busy_time q (butlast xs @ [(last xs)\<lparr>end_time := c\<rparr>]) =
     busy_time q xs + (if seg_pid (last xs) = q \<and> q \<noteq> Idle then c - end_time (last xs) else 0)"
  by (induction xs rule: rev_induct) (auto simp: duration_def)

lemma last_end_set_last:
  "xs \<noteq> [] \<Longrightarrow>
   last_end q (butlast xs @ [(last xs)\<lparr>end_time := c\<rparr>]) =
     (if seg_pid (last xs) = q then Some c else last_end q xs)"
  by (induction xs rule: rev_induct) auto

lemma ids_ok_neq:
  "ids_ok df \<Longrightarrow> i < length df \<Longrightarrow> j < length df \<Longrightarrow> pid (df ! i) = pid (df ! j) \<longleftrightarrow> i = j"
  unfolding ids_ok_def
  by (metis length_map nth_eq_iff_index_eq nth_map)

lemma ids_ok_not_idle:
  "ids_ok df \<Longrightarrow> i < length df \<Longrightarrow> pid (df ! i) \<noteq> Idle"
  unfolding ids_ok_def by (metis imageI nth_mem)

lemma fcfs_inv_init: "fcfs_inv df 0 (fcfs_init (length df))"
  by (simp add: fcfs_inv_def fcfs_init_def)

lemma fcfs_inv_step:
  assumes inv: "fcfs_inv df k st" and k: "k < length df" and pos: "0 < burst_time (df ! k)"
  shows "fcfs_inv df (Suc k) (fcfs_body df k st)"
proof -
  define st1 where "st1 = fcfs_gap df k st"
  have g_len: "f_completion_time st1 = f_completion_time st"
    "f_turnaround_time st1 = f_turnaround_time st" "f_waiting_time st1 = f_waiting_time st"
    by (simp_all add: st1_def fcfs_gap_def)
  have g_chain: "chain 0 (f_schedule st1) (f_current_time st1)"
    using inv by (simp add: st1_def fcfs_gap_def fcfs_inv_def)
  have g_arr: "arrival_time (df ! k) \<le> f_current_time st1"
    by (simp add: st1_def fcfs_gap_def)
  have g_busy: "busy_time q (f_schedule st1) = busy_time q (f_schedule st)" for q
    by (auto simp add: st1_def fcfs_gap_def)
  have g_last: "q \<noteq> Idle \<Longrightarrow> last_end q (f_schedule st1) = last_end q (f_schedule st)" for q
    by (auto simp add: st1_def fcfs_gap_def)
  have body: "fcfs_body df k st =
      st1\<lparr>f_schedule := f_schedule st1 @
                 [\<lparr>seg_pid = pid (df ! k), start_time = f_current_time st1,
                   end_time = f_current_time st1 + burst_time (df ! k)\<rparr>],
              f_completion_time := (f_completion_time st)[k := f_current_time st1 + burst_time (df ! k)],
              f_turnaround_time := (f_turnaround_time st)
                 [k := f_current_time st1 + burst_time (df ! k) - arrival_time (df ! k)],
              f_waiting_time := (f_waiting_time st)
                 [k := f_current_time st1 + burst_time (df ! k) - arrival_time (df ! k) - burst_time (df ! k)],
              f_current_time := f_current_time st1 + burst_time (df ! k)\<rparr>"
    by (simp add: fcfs_body_def Let_def st1_def [symmetric] g_len)
  have lens: "length (f_completion_time st) = length df"
     "length (f_turnaround_time st) = length df" "length (f_waiting_time st) = length df"
    using inv by (simp_all add: fcfs_inv_def)
  have old: "\<forall>i<k. f_turnaround_time st ! i = f_completion_time st ! i - arrival_time (df ! i) \<and>
            f_waiting_time st ! i = f_turnaround_time st ! i - burst_time (df ! i) \<and>
            arrival_time (df ! i) + burst_time (df ! i) \<le> f_completion_time st ! i"
    using inv by (simp add: fcfs_inv_def)
  have rows: "\<forall>i<Suc k. f_turnaround_time (fcfs_body df k st) ! i =
              f_completion_time (fcfs_body df k st) ! i - arrival_time (df ! i) \<and>
            f_waiting_time (fcfs_body df k st) ! i =
              f_turnaround_time (fcfs_body df k st) ! i - burst_time (df ! i) \<and>
            arrival_time (df ! i) + burst_time (df ! i) \<le> f_completion_time (fcfs_body df k st) ! i"
    using old k lens g_arr by (auto simp: body less_Suc_eq nth_list_update)
  have ids: "\<forall>i<length df.
           busy_time (pid (df ! i)) (f_schedule (fcfs_body df k st)) =
              (if i < Suc k then burst_time (df ! i) else 0) \<and>
           (i < Suc k \<longrightarrow> last_end (pid (df ! i)) (f_schedule (fcfs_body df k st)) =
              Some (f_completion_time (fcfs_body df k st) ! i))" if ok: "ids_ok df"
  proof (intro allI impI)
    fix i assume i: "i < length df"
    have o: "busy_time (pid (df ! i)) (f_schedule st) = (if i < k then burst_time (df ! i) else 0)"
      "i < k \<Longrightarrow> last_end (pid (df ! i)) (f_schedule st) = Some (f_completion_time st ! i)"
      using inv ok i by (simp_all add: fcfs_inv_def)
    have ni: "pid (df ! i) \<noteq> Idle" using ok i by (rule ids_ok_not_idle)
    have eq: "pid (df ! k) = pid (df ! i) \<longleftrightarrow> k = i" using ok k i by (rule ids_ok_neq)
    show "busy_time (pid (df ! i)) (f_schedule (fcfs_body df k st)) =
              (if i < Suc k then burst_time (df ! i) else 0) \<and>
           (i < Suc k \<longrightarrow> last_end (pid (df ! i)) (f_schedule (fcfs_body df k st)) =
              Some (f_completion_time (fcfs_body df k st) ! i))"
      using o ni eq k lens
      by (auto simp: body g_busy g_last duration_def less_Suc_eq nth_list_update)
  qed
  show ?thesis
    unfolding fcfs_inv_def
    using rows ids g_chain pos lens by (simp add: body)
qed

lemma fcfs_inv_fold:
  assumes "\<forall>i<length df. 0 < burst_time (df ! i)" and "k \<le> length df"
  shows "fcfs_inv df k (fold (fcfs_body df) [0..<k] (fcfs_init (length df)))"
  using assms(2)
proof (induction k)
  case 0
  show ?case by (simp add: fcfs_inv_init)
next
  case (Suc k)
  then show ?case using assms(1) by (simp add: fcfs_inv_step)
qed

section \<open>The loop of SJF\<close>

lemma count_true_update:
  "i < length bs \<Longrightarrow> \<not> bs ! i \<Longrightarrow>
     length (filter (\<lambda>b. b) (bs[i := True])) = Suc (length (filter (\<lambda>b. b) bs))"
proof (induction bs arbitrary: i)
  case Nil
  then show ?case by simp
next
  case (Cons b bs)
  then show ?case by (cases i) auto
qed

lemma count_true_full:
  "length (filter (\<lambda>b. b) bs) = length bs \<longleftrightarrow> (\<forall>i<length bs. bs ! i)"
proof (induction bs)
  case Nil
  show ?case by simp
next
  case (Cons b bs)
  have le: "length (filter (\<lambda>b. b) bs) \<noteq> Suc (length bs)"
    using length_filter_le [of "\<lambda>b. b" bs] by linarith
  show ?case
  proof (cases b)
    case True
    then show ?thesis using Cons by (auto simp: less_Suc_eq_0_disj)
  next
    case False
    then show ?thesis using le by (auto simp: less_Suc_eq_0_disj)
  qed
qed

lemma sjf_inv_init: "sjf_inv df (sjf_init (length df))"
  by (simp add: sjf_inv_def sjf_init_def)

lemma sjf_body_exec:
  "sjf_select df st = Some mi \<Longrightarrow>
   sjf_body df st =
     Some (st\<lparr>s_schedule := s_schedule st @
                 [\<lparr>seg_pid = pid (df ! mi), start_time = s_current_time st,
                   end_time = s_current_time st + burst_time (df ! mi)\<rparr>],
              s_completion_time := (s_completion_time st)
                 [mi := s_current_time st + burst_time (df ! mi)],
              s_turnaround_time := (s_turnaround_time st)
                 [mi := s_current_time st + burst_time (df ! mi) - arrival_time (df ! mi)],
              s_waiting_time := (s_waiting_time st)
                 [mi := s_current_time st + burst_time (df ! mi) - arrival_time (df ! mi)
                        - burst_time (df ! mi)],
              s_current_time := s_current_time st + burst_time (df ! mi),
              s_is_completed := (s_is_completed st)[mi := True],
              s_completed := s_completed st + 1\<rparr>)"
  by (simp add: sjf_body_def Let_def)

lemma sjf_body_idle:
  "sjf_select df st = None \<Longrightarrow>
   fst (scan_min (\<lambda>i. \<not> s_is_completed st ! i) (\<lambda>i. arrival_time (df ! i)) (length df)) = Some a \<Longrightarrow>
   sjf_body df st =
     Some (st\<lparr>s_schedule := s_schedule st @
                 [\<lparr>seg_pid = Idle, start_time = s_current_time st, end_time = a\<rparr>],
              s_current_time := a\<rparr>)"
  by (simp add: sjf_body_def Let_def)

lemma sjf_idle_next:
  assumes inv: "sjf_inv df st" and run: "s_completed st \<noteq> length df"
    and none: "sjf_select df st = None"
  shows "\<exists>a. fst (scan_min (\<lambda>i. \<not> s_is_completed st ! i) (\<lambda>i. arrival_time (df ! i))
                  (length df)) = Some a \<and>
             s_current_time st < a \<and>
             (\<exists>i<length df. \<not> s_is_completed st ! i \<and> arrival_time (df ! i) = a)"
proof -
  have len: "length (s_is_completed st) = length df"
    and cnt: "s_completed st = length (filter (\<lambda>b. b) (s_is_completed st))"
    using inv by (simp_all add: sjf_inv_def)
  have "\<not> (\<forall>i<length (s_is_completed st). s_is_completed st ! i)"
    using run cnt len count_true_full [of "s_is_completed st"] by simp
  then have ex: "\<exists>i<length df. \<not> s_is_completed st ! i" using len by simp
  then have "fst (scan_min (\<lambda>i. \<not> s_is_completed st ! i) (\<lambda>i. arrival_time (df ! i))
                  (length df)) \<noteq> None"
    by (simp add: scan_min_fst_None_iff)
  then obtain a where a: "fst (scan_min (\<lambda>i. \<not> s_is_completed st ! i)
       (\<lambda>i. arrival_time (df ! i)) (length df)) = Some a"
    by blast
  from scan_min_fst_Some [OF a] obtain i where
    i: "i < length df" "\<not> s_is_completed st ! i" "arrival_time (df ! i) = a"
    by blast
  have "\<not> (arrival_time (df ! i) \<le> s_current_time st \<and> \<not> s_is_completed st ! i)"
    using none i(1) unfolding sjf_select_def scan_min_None_iff by blast
  then have "s_current_time st < a" using i by simp
  then show ?thesis using a i by blast
qed

lemma sjf_step:
  assumes inv: "sjf_inv df st" and run: "s_completed st \<noteq> length df"
    and pos: "\<forall>i<length df. 0 < burst_time (df ! i)"
  shows "\<exists>st'. sjf_body df st = Some st' \<and> sjf_inv df st' \<and>
           sjf_measure df st' < sjf_measure df st"
proof (cases "sjf_select df st")
  case None
  from sjf_idle_next [OF inv run None] obtain a i where
    a: "fst (scan_min (\<lambda>i. \<not> s_is_completed st ! i) (\<lambda>i. arrival_time (df ! i))
                  (length df)) = Some a"
    and lt: "s_current_time st < a"
    and i: "i < length df" "\<not> s_is_completed st ! i" "arrival_time (df ! i) = a"
    by blast
  define st' where "st' = st\<lparr>s_schedule := s_schedule st @
                 [\<lparr>seg_pid = Idle, start_time = s_current_time st, end_time = a\<rparr>],
              s_current_time := a\<rparr>"
  have body: "sjf_body df st = Some st'"
    unfolding st'_def using None a by (rule sjf_body_idle)
  have b: "busy_time q (s_schedule st') = busy_time q (s_schedule st)" for q
    by (auto simp: st'_def)
  have l: "q \<noteq> Idle \<Longrightarrow> last_end q (s_schedule st') = last_end q (s_schedule st)" for q
    by (auto simp: st'_def)
  have same: "s_is_completed st' = s_is_completed st" "s_completion_time st' = s_completion_time st"
    "s_turnaround_time st' = s_turnaround_time st" "s_waiting_time st' = s_waiting_time st"
    "s_completed st' = s_completed st"
    by (simp_all add: st'_def)
  have ch': "chain 0 (s_schedule st') (s_current_time st')"
    using inv lt by (simp add: st'_def sjf_inv_def)
  have e: "s_schedule st' = [] \<longrightarrow> s_completed st' = 0"
    by (simp add: st'_def)
  have ids: "\<forall>i<length df.
           busy_time (pid (df ! i)) (s_schedule st') =
             (if s_is_completed st' ! i then burst_time (df ! i) else 0) \<and>
           (s_is_completed st' ! i \<longrightarrow>
              last_end (pid (df ! i)) (s_schedule st') = Some (s_completion_time st' ! i))"
    if ok: "ids_ok df"
    using inv ok ids_ok_not_idle [OF ok] by (simp add: b l same sjf_inv_def)
  have inv': "sjf_inv df st'"
    unfolding sjf_inv_def using inv ch' e ids by (simp add: same sjf_inv_def)
  have "sjf_select df st' \<noteq> None"
    unfolding sjf_select_def scan_min_None_iff using i by (auto simp: st'_def)
  then have "sjf_measure df st' < sjf_measure df st"
    using None by (auto simp: sjf_measure_def st'_def)
  then show ?thesis using body inv' by blast
next
  case (Some mi)
  note c = scan_min_snd_Some [OF Some [unfolded sjf_select_def]]
  have mi: "mi < length df" "arrival_time (df ! mi) \<le> s_current_time st"
    "\<not> s_is_completed st ! mi"
    using c by simp_all
  define st' where "st' = st\<lparr>s_schedule := s_schedule st @
                 [\<lparr>seg_pid = pid (df ! mi), start_time = s_current_time st,
                   end_time = s_current_time st + burst_time (df ! mi)\<rparr>],
              s_completion_time := (s_completion_time st)
                 [mi := s_current_time st + burst_time (df ! mi)],
              s_turnaround_time := (s_turnaround_time st)
                 [mi := s_current_time st + burst_time (df ! mi) - arrival_time (df ! mi)],
              s_waiting_time := (s_waiting_time st)
                 [mi := s_current_time st + burst_time (df ! mi) - arrival_time (df ! mi)
                        - burst_time (df ! mi)],
              s_current_time := s_current_time st + burst_time (df ! mi),
              s_is_completed := (s_is_completed st)[mi := True],
              s_completed := s_completed st + 1\<rparr>"
  have body: "sjf_body df st = Some st'"
    unfolding st'_def using Some by (rule sjf_body_exec)
  have lens: "length (s_is_completed st) = length df"
     "length (s_completion_time st) = length df"
     "length (s_turnaround_time st) = length df"
     "length (s_waiting_time st) = length df"
    and cnt: "s_completed st = length (filter (\<lambda>b. b) (s_is_completed st))"
    and ch: "chain 0 (s_schedule st) (s_current_time st)"
    using inv by (simp_all add: sjf_inv_def)
  have cnt': "s_completed st' = length (filter (\<lambda>b. b) (s_is_completed st'))"
    using cnt mi lens by (simp add: st'_def count_true_update)
  have ch': "chain 0 (s_schedule st') (s_current_time st')"
    using ch pos mi by (simp add: st'_def)
  have rows: "\<forall>i<length df. s_is_completed st' ! i \<longrightarrow>
        s_turnaround_time st' ! i = s_completion_time st' ! i - arrival_time (df ! i) \<and>
        s_waiting_time st' ! i = s_turnaround_time st' ! i - burst_time (df ! i) \<and>
        arrival_time (df ! i) + burst_time (df ! i) \<le> s_completion_time st' ! i"
    using inv mi lens unfolding sjf_inv_def st'_def
    by (auto simp: nth_list_update)
  have ids: "\<forall>i<length df.
           busy_time (pid (df ! i)) (s_schedule st') =
             (if s_is_completed st' ! i then burst_time (df ! i) else 0) \<and>
           (s_is_completed st' ! i \<longrightarrow>
              last_end (pid (df ! i)) (s_schedule st') = Some (s_completion_time st' ! i))"
    if ok: "ids_ok df"
  proof (intro allI impI)
    fix i assume i: "i < length df"
    have o: "busy_time (pid (df ! i)) (s_schedule st) =
             (if s_is_completed st ! i then burst_time (df ! i) else 0)"
      "s_is_completed st ! i \<Longrightarrow>
              last_end (pid (df ! i)) (s_schedule st) = Some (s_completion_time st ! i)"
      using inv ok i by (simp_all add: sjf_inv_def)
    have ni: "pid (df ! i) \<noteq> Idle" using ok i by (rule ids_ok_not_idle)
    have eq: "pid (df ! mi) = pid (df ! i) \<longleftrightarrow> mi = i" using ok mi(1) i by (rule ids_ok_neq)
    show "busy_time (pid (df ! i)) (s_schedule st') =
             (if s_is_completed st' ! i then burst_time (df ! i) else 0) \<and>
           (s_is_completed st' ! i \<longrightarrow>
              last_end (pid (df ! i)) (s_schedule st') = Some (s_completion_time st' ! i))"
      using o ni eq mi lens i
      by (auto simp: st'_def duration_def nth_list_update)
  qed
  have inv': "sjf_inv df st'"
    unfolding sjf_inv_def using cnt' ch' rows ids lens by (simp add: st'_def)
  have "length (filter (\<lambda>b. b) (s_is_completed st)) \<le> length (s_is_completed st)" by simp
  then have "s_completed st < length df" using run cnt lens by simp
  then have "sjf_measure df st' < sjf_measure df st"
    by (auto simp: sjf_measure_def st'_def)
  then show ?thesis using body inv' by blast
qed

lemma sjf_while_total:
  assumes pos: "\<forall>i<length df. 0 < burst_time (df ! i)"
  shows "sjf_inv df st \<Longrightarrow>
     \<exists>st'. sjf_while df st = Some st' \<and> sjf_inv df st' \<and> s_completed st' = length df"
proof (induction "sjf_measure df st" arbitrary: st rule: less_induct)
  case less
  show ?case
  proof (cases "s_completed st = length df")
    case True
    then show ?thesis using less.prems by (subst sjf_while.simps) simp
  next
    case False
    from sjf_step [OF less.prems False pos] obtain st1 where
      st1: "sjf_body df st = Some st1" "sjf_inv df st1" "sjf_measure df st1 < sjf_measure df st"
      by blast
    from less.hyps [OF st1(3) st1(2)] obtain st' where
      "sjf_while df st1 = Some st'" "sjf_inv df st'" "s_completed st' = length df"
      by blast
    then show ?thesis using False st1(1) by (subst sjf_while.simps) simp
  qed
qed

section \<open>The loop of Round Robin\<close>

lemma sum_list_update_int:
  "i < length xs \<Longrightarrow> sum_list (xs[i := v]) = sum_list xs - xs ! i + (v::int)"
proof (induction xs arbitrary: i)
  case Nil
  then show ?case by simp
next
  case (Cons x xs)
  then show ?case by (cases i) auto
qed

lemma sum_list_pos_ex:
  assumes "0 < sum_list (xs::int list)"
  shows "\<exists>i<length xs. 0 < xs ! i"
proof (rule ccontr)
  assume "\<not> (\<exists>i<length xs. 0 < xs ! i)"
  then have "\<And>x. x \<in> set xs \<Longrightarrow> x \<le> 0"
    by (metis in_set_conv_nth not_le)
  then have "sum_list xs \<le> 0" by (rule sum_list_nonpos)
  then show False using assms by simp
qed

lemma sum_list_nonneg_nth:
  assumes "\<forall>i<length xs. 0 \<le> (xs ! i :: int)"
  shows "0 \<le> sum_list xs"
  by (rule sum_list_nonneg) (metis assms in_set_conv_nth)

lemma rr_inv_init:
  assumes pos: "\<forall>i<length df. 0 < burst_time (df ! i)"
  shows "rr_inv df (rr_init df)"
proof -
  have "rr_shape df (rr_init df)"
    using pos by (simp add: rr_shape_def rr_init_def less_imp_le)
  moreover have "rr_queue df (rr_init df)"
    using pos by (simp add: rr_queue_def rr_init_def)
  moreover have "rr_clock df (rr_init df)"
    using pos by (auto simp: rr_clock_def rr_init_def)
  moreover have "rr_ids df (rr_init df)"
    using pos by (auto simp: rr_ids_def rr_init_def)
  ultimately show ?thesis by (simp add: rr_inv_def)
qed

lemma rr_idle_step:
  assumes inv: "rr_inv df st" and empty: "r_ready_queue st = []"
    and work: "0 < sum_list (r_remaining_burst_time st)"
  shows "\<exists>st'. rr_idle df st = Some st' \<and> rr_inv df st' \<and> rr_measure st' < rr_measure st \<and>
           r_current_time st < r_current_time st'"
proof -
  let ?rem = "r_remaining_burst_time st"
  have shape: "rr_shape df st" and queue: "rr_queue df st" and clock: "rr_clock df st"
    and ids: "ids_ok df \<Longrightarrow> rr_ids df st"
    using inv by (simp_all add: rr_inv_def)
  have len: "length ?rem = length df" using shape by (simp add: rr_shape_def)
  from sum_list_pos_ex [OF work] have ex: "\<exists>i<length df. 0 < ?rem ! i" using len by simp
  then have "fst (scan_min (\<lambda>i. ?rem ! i > 0) (\<lambda>i. arrival_time (df ! i)) (length df)) \<noteq> None"
    by (simp add: scan_min_fst_None_iff)
  then obtain a where a: "fst (scan_min (\<lambda>i. ?rem ! i > 0) (\<lambda>i. arrival_time (df ! i))
      (length df)) = Some a"
    by blast
  have "\<exists>i<length df. 0 < ?rem ! i \<and> arrival_time (df ! i) = a"
    using scan_min_fst_Some [OF a] by simp
  then obtain i where i: "i < length df" "0 < ?rem ! i" "arrival_time (df ! i) = a"
    by blast
  have late: "r_current_time st < arrival_time (df ! j)" if "j < length df" "0 < ?rem ! j" for j
  proof -
    have "\<not> arrival_time (df ! j) \<le> r_current_time st"
      using queue that empty by (auto simp: rr_queue_def)
    then show ?thesis by simp
  qed
  have lt: "r_current_time st < a" using late [OF i(1,2)] i(3) by simp
  define q where "q = filter (\<lambda>j. (arrival_time (df ! j) \<le> a \<and> 0 < ?rem ! j) \<and> j \<notin> set [])
     [0..<length df]"
  have fold_q: "fold (\<lambda>i q. if arrival_time (df ! i) \<le> a \<and> ?rem ! i > 0 \<and> i \<notin> set q
                   then q @ [i] else q) [0..<length df] [] = [] @ q"
    unfolding q_def by (rule fold_admit) auto
  define st' where "st' = st\<lparr>r_schedule := r_schedule st @
                         [\<lparr>seg_pid = Idle, start_time = r_current_time st, end_time = a\<rparr>],
                      r_current_time := a, r_ready_queue := q\<rparr>"
  have body: "rr_idle df st = Some st'"
    using a fold_q by (simp add: rr_idle_def Let_def st'_def empty)
  have q_set: "j \<in> set q \<longleftrightarrow> j < length df \<and> arrival_time (df ! j) \<le> a \<and> 0 < ?rem ! j" for j
    by (auto simp: q_def)
  have q_dist: "distinct q" by (simp add: q_def)
  have "i \<in> set q" using i by (simp add: q_set)
  then have q_ne: "q \<noteq> []" by auto
  have b: "busy_time p (r_schedule st') = busy_time p (r_schedule st)" for p
    by (auto simp: st'_def)
  have l: "p \<noteq> Idle \<Longrightarrow> last_end p (r_schedule st') = last_end p (r_schedule st)" for p
    by (auto simp: st'_def)
  have same: "r_remaining_burst_time st' = ?rem" "r_completion_time st' = r_completion_time st"
    "r_current_time st' = a" "r_ready_queue st' = q"
    by (simp_all add: st'_def)
  have shape': "rr_shape df st'"
    using shape by (simp add: rr_shape_def same)
  have queue': "rr_queue df st'"
    using q_dist by (simp add: rr_queue_def same q_set)
  have ch': "chain 0 (r_schedule st') a"
    using clock lt by (simp add: st'_def rr_clock_def)
  have ne: "r_schedule st' \<noteq> []" by (simp add: st'_def)
  have prog: "arrival_time (df ! i) + (burst_time (df ! i) - ?rem ! i) \<le> a"
    if "i < length df" "?rem ! i < burst_time (df ! i)" for i
  proof -
    have "arrival_time (df ! i) + (burst_time (df ! i) - ?rem ! i) \<le> r_current_time st"
      using clock that by (simp add: rr_clock_def)
    then show ?thesis using lt by linarith
  qed
  have fin: "\<forall>i<length df. ?rem ! i = 0 \<longrightarrow>
        arrival_time (df ! i) + burst_time (df ! i) \<le> r_completion_time st ! i"
    using clock by (simp add: rr_clock_def)
  have clock': "rr_clock df st'"
    unfolding rr_clock_def same using ch' ne prog fin by simp
  have ids': "rr_ids df st'" if ok: "ids_ok df"
    using ids [OF ok] ids_ok_not_idle [OF ok] by (simp add: rr_ids_def b l same)
  have inv': "rr_inv df st'"
    using shape' queue' clock' ids' by (simp add: rr_inv_def)
  have "rr_measure st' < rr_measure st"
    using q_ne empty by (simp add: rr_measure_def same)
  then show ?thesis using body inv' lt by (auto simp: same)
qed

lemma rr_exec_step:
  assumes inv: "rr_inv df st" and queue_eq: "r_ready_queue st = i # rest"
    and tq: "1 \<le> time_quantum"
  shows "rr_inv df (rr_exec df time_quantum i rest st) \<and>
         rr_measure (rr_exec df time_quantum i rest st) < rr_measure st"
proof -
  let ?rem = "r_remaining_burst_time st"
  let ?t = "r_current_time st"
  have shape: "rr_shape df st" and queue: "rr_queue df st" and clock: "rr_clock df st"
    and ids: "ids_ok df \<Longrightarrow> rr_ids df st"
    using inv by (simp_all add: rr_inv_def)
  have len: "length ?rem = length df" "length (r_completion_time st) = length df"
    and bounds: "\<And>j. j < length df \<Longrightarrow> 0 \<le> ?rem ! j \<and> ?rem ! j \<le> burst_time (df ! j)"
    using shape by (simp_all add: rr_shape_def)
  have q_dist: "i \<notin> set rest" "distinct rest"
    using queue queue_eq by (simp_all add: rr_queue_def)
  have q_mem: "j < length df \<and> 0 < ?rem ! j \<and> arrival_time (df ! j) \<le> ?t"
    if "j \<in> set (i # rest)" for j
  proof -
    have "j \<in> set (r_ready_queue st)" using that queue_eq by simp
    then show ?thesis using queue unfolding rr_queue_def by blast
  qed
  have q_all: "j \<in> set (i # rest)"
    if "j < length df" "arrival_time (df ! j) \<le> ?t" "0 < ?rem ! j" for j
  proof -
    have "j \<in> set (r_ready_queue st)" using that queue unfolding rr_queue_def by blast
    then show ?thesis using queue_eq by simp
  qed
  have i: "i < length df" "0 < ?rem ! i" "arrival_time (df ! i) \<le> ?t"
    using q_mem [of i] by simp_all
  define e where "e = min time_quantum (?rem ! i)"
  have e: "1 \<le> e" "e \<le> ?rem ! i" using tq i(2) by (simp_all add: e_def)
  define t' where "t' = ?t + e"
  define rem' where "rem' = ?rem[i := ?rem ! i - e]"
  define sched' where "sched' = r_schedule st @
            [\<lparr>seg_pid = pid (df ! i), start_time = ?t, end_time = t'\<rparr>]"
  define adm where "adm = filter (\<lambda>j. (arrival_time (df ! j) \<le> t' \<and> rem' ! j > 0 \<and> j \<noteq> i) \<and>
      j \<notin> set rest) [0..<length df]"
  have fold_adm: "fold (\<lambda>j q. if arrival_time (df ! j) \<le> t' \<and> rem' ! j > 0 \<and>
                                  j \<notin> set q \<and> j \<noteq> i
                               then q @ [j] else q) [0..<length df] rest = rest @ adm"
    unfolding adm_def by (rule fold_admit) auto
  define st' where "st' = rr_exec df time_quantum i rest st"
  have st'_eq: "st' = (if rem' ! i > 0
         then st\<lparr>r_schedule := sched', r_current_time := t',
                 r_remaining_burst_time := rem', r_ready_queue := (rest @ adm) @ [i]\<rparr>
         else st\<lparr>r_schedule := sched', r_current_time := t',
                 r_remaining_burst_time := rem', r_ready_queue := rest @ adm,
                 r_completion_time := (r_completion_time st)[i := t']\<rparr>)"
    unfolding st'_def rr_exec_def Let_def
    by (simp only: e_def [symmetric] t'_def [symmetric] rem'_def [symmetric]
        sched'_def [symmetric] fold_adm)
  have sel: "r_schedule st' = sched'" "r_current_time st' = t'"
    "r_remaining_burst_time st' = rem'"
    "r_ready_queue st' = (if rem' ! i > 0 then rest @ adm @ [i] else rest @ adm)"
    "r_completion_time st' =
       (if rem' ! i > 0 then r_completion_time st else (r_completion_time st)[i := t'])"
    by (simp_all add: st'_eq)
  have rem'_i: "rem' ! i = ?rem ! i - e" using i(1) len by (simp add: rem'_def)
  have rem'_other: "j \<noteq> i \<Longrightarrow> rem' ! j = ?rem ! j" for j by (simp add: rem'_def)
  have rem'_len: "length rem' = length df" using len by (simp add: rem'_def)
  have t_le: "?t < t'" using e by (simp add: t'_def)
  have adm_set: "j \<in> set adm \<longleftrightarrow>
      j < length df \<and> arrival_time (df ! j) \<le> t' \<and> rem' ! j > 0 \<and> j \<noteq> i \<and> j \<notin> set rest" for j
    by (auto simp: adm_def)
  have adm_dist: "distinct adm" by (simp add: adm_def)
  have shape': "rr_shape df st'"
  proof -
    have "0 \<le> rem' ! j \<and> rem' ! j \<le> burst_time (df ! j)" if "j < length df" for j
      using bounds [OF that] e rem'_i rem'_other [of j] by (cases "j = i") auto
    then show ?thesis using len rem'_len by (simp add: rr_shape_def sel)
  qed
  have queue': "rr_queue df st'"
  proof -
    have d: "distinct (r_ready_queue st')"
      using q_dist adm_dist by (auto simp: sel adm_set)
    have m: "j < length df \<and> 0 < rem' ! j \<and> arrival_time (df ! j) \<le> t'"
      if jq: "j \<in> set (r_ready_queue st')" for j
    proof -
      consider "j \<in> set rest" | "j \<in> set adm" | "j = i" "rem' ! i > 0"
        using jq by (auto simp: sel split: if_splits)
      then show ?thesis
      proof cases
        case 1
        then have "j \<noteq> i" using q_dist by auto
        then show ?thesis using q_mem [of j] 1 t_le rem'_other [of j] by simp
      next
        case 2
        then show ?thesis by (simp add: adm_set)
      next
        case 3
        then show ?thesis using i t_le by simp
      qed
    qed
    have c: "j \<in> set (r_ready_queue st')"
      if "j < length df" "arrival_time (df ! j) \<le> t'" "0 < rem' ! j" for j
      using that by (auto simp: sel adm_set)
    show ?thesis unfolding rr_queue_def sel(2,3) using d m c by blast
  qed
  have clock': "rr_clock df st'"
  proof -
    have ch: "chain 0 sched' t'"
      using clock t_le by (simp add: rr_clock_def sched'_def)
    have ne: "sched' \<noteq> []" by (simp add: sched'_def)
    have old_prog: "\<And>j. j < length df \<Longrightarrow> ?rem ! j < burst_time (df ! j) \<Longrightarrow>
        arrival_time (df ! j) + (burst_time (df ! j) - ?rem ! j) \<le> ?t"
      using clock by (simp add: rr_clock_def)
    have prog: "arrival_time (df ! j) + (burst_time (df ! j) - rem' ! j) \<le> t'"
      if "j < length df" "rem' ! j < burst_time (df ! j)" for j
    proof (cases "j = i")
      case True
      show ?thesis
      proof (cases "?rem ! i < burst_time (df ! i)")
        case True
        then show ?thesis using old_prog [OF i(1)] \<open>j = i\<close> rem'_i by (simp add: t'_def)
      next
        case False
        then have "?rem ! i = burst_time (df ! i)" using bounds [OF i(1)] by simp
        then show ?thesis using i(3) \<open>j = i\<close> rem'_i by (simp add: t'_def)
      qed
    next
      case False
      then show ?thesis using old_prog [of j] that t_le rem'_other [of j] by simp
    qed
    have old_fin: "\<And>j. j < length df \<Longrightarrow> ?rem ! j = 0 \<Longrightarrow>
        arrival_time (df ! j) + burst_time (df ! j) \<le> r_completion_time st ! j"
      using clock by (simp add: rr_clock_def)
    have fin: "arrival_time (df ! j) + burst_time (df ! j) \<le> r_completion_time st' ! j"
      if "j < length df" "rem' ! j = 0" for j
    proof (cases "j = i")
      case True
      have "rem' ! i < burst_time (df ! i)" using that True rem'_i e bounds [OF i(1)] by simp
      from prog [OF i(1) this] show ?thesis
        using that True len i(1) by (simp add: sel)
    next
      case False
      then show ?thesis using old_fin [of j] that rem'_other [of j] by (simp add: sel)
    qed
    show ?thesis unfolding rr_clock_def sel(1,2,3) using ch ne prog fin by blast
  qed
  have ids': "rr_ids df st'" if ok: "ids_ok df"
  proof -
    have old: "\<And>j. j < length df \<Longrightarrow>
        busy_time (pid (df ! j)) (r_schedule st) + ?rem ! j = burst_time (df ! j) \<and>
        (?rem ! j = 0 \<longrightarrow>
           last_end (pid (df ! j)) (r_schedule st) = Some (r_completion_time st ! j))"
      using ids [OF ok] by (simp add: rr_ids_def)
    have "busy_time (pid (df ! j)) sched' + rem' ! j = burst_time (df ! j) \<and>
        (rem' ! j = 0 \<longrightarrow>
           last_end (pid (df ! j)) sched' = Some (r_completion_time st' ! j))"
      if j: "j < length df" for j
    proof (cases "j = i")
      case True
      have ni: "pid (df ! i) \<noteq> Idle" using ok i(1) by (rule ids_ok_not_idle)
      show ?thesis
        using old [OF i(1)] True ni rem'_i len i(1)
        by (simp add: sched'_def duration_def t'_def sel)
    next
      case False
      have "pid (df ! i) \<noteq> pid (df ! j)" using ids_ok_neq [OF ok i(1) j] False by simp
      then show ?thesis
        using old [OF j] False rem'_other [of j]
        by (simp add: sched'_def sel)
    qed
    then show ?thesis by (simp add: rr_ids_def sel(1,3))
  qed
  have inv': "rr_inv df st'"
    using shape' queue' clock' ids' by (simp add: rr_inv_def)
  have s: "sum_list rem' = sum_list ?rem - e"
    using i(1) len by (simp add: rem'_def sum_list_update_int)
  have "0 \<le> sum_list rem'"
    by (rule sum_list_nonneg_nth) (use shape' in \<open>simp add: rr_shape_def sel rem'_len\<close>)
  then have "nat (sum_list rem') < nat (sum_list ?rem)"
    using s e by simp
  moreover have "rr_measure st' \<le> 2 * nat (sum_list rem') + 1"
    by (simp add: rr_measure_def sel(3))
  moreover have "2 * nat (sum_list ?rem) \<le> rr_measure st"
    by (simp add: rr_measure_def)
  ultimately have "rr_measure st' < rr_measure st" by linarith
  then show ?thesis using inv' by (simp add: st'_def)
qed

lemma rr_while_total:
  assumes tq: "1 \<le> time_quantum"
  shows "rr_inv df st \<Longrightarrow>
     \<exists>st'. rr_while df time_quantum st = Some st' \<and> rr_inv df st' \<and>
           r_ready_queue st' = [] \<and> sum_list (r_remaining_burst_time st') \<le> 0"
proof (induction "rr_measure st" arbitrary: st rule: less_induct)
  case less
  show ?case
  proof (cases "r_ready_queue st")
    case Nil
    show ?thesis
    proof (cases "0 < sum_list (r_remaining_burst_time st)")
      case True
      from rr_idle_step [OF less.prems Nil True] obtain st1 where
        st1: "rr_idle df st = Some st1" "rr_inv df st1" "rr_measure st1 < rr_measure st"
        by blast
      from less.hyps [OF st1(3) st1(2)] obtain st' where
        "rr_while df time_quantum st1 = Some st'" "rr_inv df st'"
        "r_ready_queue st' = []" "sum_list (r_remaining_burst_time st') \<le> 0"
        by blast
      then show ?thesis using Nil True st1(1) by (subst rr_while.simps) simp
    next
      case False
      then show ?thesis using Nil less.prems by (subst rr_while.simps) simp
    qed
  next
    case (Cons i rest)
    from rr_exec_step [OF less.prems Cons tq]
    have st1: "rr_inv df (rr_exec df time_quantum i rest st)"
      "rr_measure (rr_exec df time_quantum i rest st) < rr_measure st"
      by simp_all
    from less.hyps [OF st1(2) st1(1)] obtain st' where
      "rr_while df time_quantum (rr_exec df time_quantum i rest st) = Some st'" "rr_inv df st'"
      "r_ready_queue st' = []" "sum_list (r_remaining_burst_time st') \<le> 0"
      by blast
    then show ?thesis using Cons by (subst rr_while.simps) simp
  qed
qed

section \<open>The loop of priority scheduling\<close>

lemma lex_measure:
  assumes "(k' < k \<and> c' \<le> n) \<or> (k' = k \<and> c' < c)"
  shows "k' * (n + 1) + c' < k * (n + 1) + (c::nat)"
  using assms
proof
  assume a: "k' < k \<and> c' \<le> n"
  then have "(k' + 1) * (n + 1) \<le> k * (n + 1)"
    by (intro mult_le_mono1) simp
  moreover have "k' * (n + 1) + c' < (k' + 1) * (n + 1)" using a by simp
  ultimately show ?thesis by linarith
next
  assume "k' = k \<and> c' < c"
  then show ?thesis by simp
qed

lemma prio_inv_init:
  assumes pos: "\<forall>i<length df. 0 < burst_time (df ! i)"
  shows "prio_inv df preemptive (prio_init df)"
proof -
  have "prio_shape df (prio_init df)"
    using pos by (simp add: prio_shape_def prio_init_def)
  moreover have "prio_clock df (prio_init df)"
    by (simp add: prio_clock_def prio_init_def)
  moreover have "prio_prev df preemptive (prio_init df)"
    by (simp add: prio_prev_def prio_init_def)
  moreover have "prio_ids df (prio_init df)"
    by (simp add: prio_ids_def prio_init_def)
  ultimately show ?thesis by (simp add: prio_inv_def)
qed

lemma future_card_le:
  "card {i. i < length df \<and> P i} \<le> length df"
proof -
  have "card {i. i < length df \<and> P i} \<le> card {..<length df}"
    by (rule card_mono) auto
  then show ?thesis by simp
qed

lemma future_card_less:
  assumes "j < length df" "\<not> ic ! j" "t < arrival_time (df ! j)" "arrival_time (df ! j) \<le> t'"
    and "t \<le> t'"
  shows "card {i. i < length df \<and> \<not> ic ! i \<and> t' < arrival_time (df ! i)} <
         card {i. i < length df \<and> \<not> ic ! i \<and> t < arrival_time (df ! i)}"
proof (rule psubset_card_mono)
  show "finite {i. i < length df \<and> \<not> ic ! i \<and> t < arrival_time (df ! i)}" by simp
  have "j \<in> {i. i < length df \<and> \<not> ic ! i \<and> t < arrival_time (df ! i)}"
    using assms by simp
  moreover have "j \<notin> {i. i < length df \<and> \<not> ic ! i \<and> t' < arrival_time (df ! i)}"
    using assms by simp
  moreover have "{i. i < length df \<and> \<not> ic ! i \<and> t' < arrival_time (df ! i)} \<subseteq>
        {i. i < length df \<and> \<not> ic ! i \<and> t < arrival_time (df ! i)}"
    using assms(5) by auto
  ultimately show "{i. i < length df \<and> \<not> ic ! i \<and> t' < arrival_time (df ! i)} \<subset>
        {i. i < length df \<and> \<not> ic ! i \<and> t < arrival_time (df ! i)}"
    by blast
qed

lemma prio_idle_step:
  assumes inv: "prio_inv df preemptive st" and run: "p_completed st \<noteq> length df"
    and none: "prio_select df st = None"
  shows "\<exists>st'. prio_body df preemptive st = Some (Inr st') \<and> prio_inv df preemptive st' \<and>
           prio_measure df st' < prio_measure df st \<and>
           p_current_time st < p_current_time st'"
proof -
  let ?ic = "p_is_completed st"
  let ?t = "p_current_time st"
  have shape: "prio_shape df st" and clock: "prio_clock df st"
    and prev: "prio_prev df preemptive st" and ids: "ids_ok df \<Longrightarrow> prio_ids df st"
    using inv by (simp_all add: prio_inv_def)
  have len: "length ?ic = length df"
    and cnt: "p_completed st = length (filter (\<lambda>b. b) ?ic)"
    using shape by (simp_all add: prio_shape_def)
  have noready: "\<not> (arrival_time (df ! j) \<le> ?t \<and> \<not> ?ic ! j)" if "j < length df" for j
    using none that unfolding prio_select_def scan_min_None_iff by blast
  have "\<not> (\<forall>i<length ?ic. ?ic ! i)"
    using run cnt len count_true_full [of ?ic] by simp
  then have "\<exists>i<length df. \<not> ?ic ! i" using len by simp
  then have "fst (scan_min (\<lambda>i. \<not> ?ic ! i) (\<lambda>i. arrival_time (df ! i)) (length df)) \<noteq> None"
    by (simp add: scan_min_fst_None_iff)
  then obtain a where a: "fst (scan_min (\<lambda>i. \<not> ?ic ! i) (\<lambda>i. arrival_time (df ! i))
       (length df)) = Some a"
    by blast
  have "\<exists>i<length df. \<not> ?ic ! i \<and> arrival_time (df ! i) = a"
    using scan_min_fst_Some [OF a] by simp
  then obtain i where i: "i < length df" "\<not> ?ic ! i" "arrival_time (df ! i) = a"
    by blast
  have lt: "?t < a" using noready [OF i(1)] i by simp
  define st' where "st' = st\<lparr>p_schedule := p_schedule st @
                 [\<lparr>seg_pid = Idle, start_time = ?t, end_time = a\<rparr>],
              p_current_time := a\<rparr>"
  have body: "prio_body df preemptive st = Some (Inr st')"
    using none a by (simp add: prio_body_def Let_def st'_def)
  have same: "p_remaining_burst_time st' = p_remaining_burst_time st"
    "p_completion_time st' = p_completion_time st" "p_is_completed st' = ?ic"
    "p_completed st' = p_completed st" "p_prev_process st' = p_prev_process st"
    "p_current_time st' = a"
    by (simp_all add: st'_def)
  have b: "busy_time q (p_schedule st') = busy_time q (p_schedule st)" for q
    by (auto simp: st'_def)
  have l: "q \<noteq> Idle \<Longrightarrow> last_end q (p_schedule st') = last_end q (p_schedule st)" for q
    by (auto simp: st'_def)
  have shape': "prio_shape df st'"
    using shape by (simp add: prio_shape_def same)
  have clock': "prio_clock df st'"
  proof -
    have ch: "chain 0 (p_schedule st') a" using clock lt by (simp add: st'_def prio_clock_def)
    have ne: "p_schedule st' \<noteq> []" by (simp add: st'_def)
    have prog: "arrival_time (df ! j) + (burst_time (df ! j) - p_remaining_burst_time st ! j) \<le> a"
      if "j < length df" "p_remaining_burst_time st ! j < burst_time (df ! j)" for j
    proof -
      have "arrival_time (df ! j) + (burst_time (df ! j) - p_remaining_burst_time st ! j) \<le> ?t"
        using clock that by (simp add: prio_clock_def)
      then show ?thesis using lt by linarith
    qed
    have fin: "\<forall>i<length df. ?ic ! i \<longrightarrow>
        arrival_time (df ! i) + burst_time (df ! i) \<le> p_completion_time st ! i"
      using clock by (simp add: prio_clock_def)
    show ?thesis unfolding prio_clock_def same using ch ne prog fin by simp
  qed
  have prev': "prio_prev df preemptive st'"
  proof -
    have 1: "\<not> preemptive \<longrightarrow> p_prev_process st = None"
      using prev by (simp add: prio_prev_def)
    have 2: "p < length df \<and> ?ic ! p" if p: "p_prev_process st = Some p" for p
    proof -
      have pl: "p < length df" and
        pa: "\<not> ?ic ! p \<Longrightarrow> arrival_time (df ! p) \<le> ?t"
        using prev p by (simp_all add: prio_prev_def)
      show ?thesis using pl pa noready [OF pl] by blast
    qed
    show ?thesis unfolding prio_prev_def same using 1 2 by blast
  qed
  have ids': "prio_ids df st'" if ok: "ids_ok df"
    using ids [OF ok] ids_ok_not_idle [OF ok] by (simp add: prio_ids_def b l same)
  have inv': "prio_inv df preemptive st'"
    using shape' clock' prev' ids' by (simp add: prio_inv_def)
  have "card {j. j < length df \<and> \<not> ?ic ! j \<and> a < arrival_time (df ! j)} <
        card {j. j < length df \<and> \<not> ?ic ! j \<and> ?t < arrival_time (df ! j)}"
    by (rule future_card_less [of i]) (use i lt in simp_all)
  then have "prio_measure df st' < prio_measure df st"
    unfolding prio_measure_def same by (intro lex_measure) simp
  then show ?thesis using body inv' lt by (auto simp: same)
qed

lemma prio_after_sel:
  "p_schedule (prio_after st sel e sched' pv) = sched'"
  "p_current_time (prio_after st sel e sched' pv) = p_current_time st + e"
  "p_remaining_burst_time (prio_after st sel e sched' pv) =
     (p_remaining_burst_time st)[sel := p_remaining_burst_time st ! sel - e]"
  "p_prev_process (prio_after st sel e sched' pv) = pv"
  "p_completion_time (prio_after st sel e sched' pv) =
     (if p_remaining_burst_time st ! sel - e = 0
      then (p_completion_time st)[sel := p_current_time st + e] else p_completion_time st)"
  "p_is_completed (prio_after st sel e sched' pv) =
     (if p_remaining_burst_time st ! sel - e = 0
      then (p_is_completed st)[sel := True] else p_is_completed st)"
  "p_completed (prio_after st sel e sched' pv) =
     (if p_remaining_burst_time st ! sel - e = 0
      then p_completed st + 1 else p_completed st)"
  by (simp_all add: prio_after_def Let_def)

lemma prio_body_nonpreemptive:
  assumes "prio_select df st = Some sel" and "sel < length (p_remaining_burst_time st)"
  shows "prio_body df False st =
     Some (Inr (prio_after st sel (p_remaining_burst_time st ! sel)
        (p_schedule st @
           [\<lparr>seg_pid = pid (df ! sel), start_time = p_current_time st,
             end_time = p_current_time st + p_remaining_burst_time st ! sel\<rparr>])
        (p_prev_process st)))"
  using assms by (simp add: prio_body_def prio_after_def Let_def)

lemma prio_body_preemptive:
  assumes "prio_select df st = Some sel" and "sel < length (p_remaining_burst_time st)"
    and "p_prev_process st = Some sel \<longrightarrow> p_schedule st \<noteq> []"
  shows "prio_body df True st =
     Some (Inr (prio_after st sel (slice_length df st sel)
        (if p_prev_process st \<noteq> Some sel
         then p_schedule st @
           [\<lparr>seg_pid = pid (df ! sel), start_time = p_current_time st,
             end_time = p_current_time st + slice_length df st sel\<rparr>]
         else butlast (p_schedule st) @
           [(last (p_schedule st))\<lparr>end_time := p_current_time st + slice_length df st sel\<rparr>])
        (Some sel)))"
proof -
  have e: "min (p_remaining_burst_time st ! sel)
             (case future_arrival df st sel of
                None \<Rightarrow> p_remaining_burst_time st ! sel
              | Some next_arrival \<Rightarrow> next_arrival - p_current_time st) =
           slice_length df st sel"
    by (simp add: future_arrival_spec slice_length_def)
  have "prio_body df True st =
     (case (if p_prev_process st \<noteq> Some sel
            then Inr (p_schedule st @
                   [\<lparr>seg_pid = pid (df ! sel), start_time = p_current_time st,
                     end_time = p_current_time st + slice_length df st sel\<rparr>])
            else set_last_end (p_schedule st) (p_current_time st + slice_length df st sel)) of
        Inl err \<Rightarrow> Some (Inl err)
      | Inr schedule \<Rightarrow>
          Some (Inr (prio_after st sel (slice_length df st sel) schedule (Some sel))))"
    using assms(1,2)
    apply (simp only: prio_body_def Let_def option.case if_True if_False
        not_True_eq_False not_False_eq_True simp_thms e)
    apply (simp add: prio_after_def Let_def split: sum.splits)
    done
  then show ?thesis
    using assms(3) by (simp add: set_last_end_def)
qed

lemma slice_length_bounds:
  assumes "0 < p_remaining_burst_time st ! sel"
  shows "1 \<le> slice_length df st sel \<and> slice_length df st sel \<le> p_remaining_burst_time st ! sel"
proof (cases "future_arrivals df st sel = {}")
  case True
  then show ?thesis using assms by (simp add: slice_length_def)
next
  case False
  have fin: "finite (future_arrivals df st sel)" by (simp add: future_arrivals_def)
  have "Min (future_arrivals df st sel) \<in> future_arrivals df st sel"
    using fin False by (rule Min_in)
  then have "p_current_time st < Min (future_arrivals df st sel)"
    by (auto simp: future_arrivals_def)
  then show ?thesis using assms False by (simp add: slice_length_def)
qed

lemma slice_length_preempted:
  assumes "slice_length df st sel < p_remaining_burst_time st ! sel"
  shows "\<exists>j<length df. \<not> p_is_completed st ! j \<and> p_current_time st < arrival_time (df ! j) \<and>
           arrival_time (df ! j) = p_current_time st + slice_length df st sel"
proof (cases "future_arrivals df st sel = {}")
  case True
  then show ?thesis using assms by (simp add: slice_length_def)
next
  case False
  have fin: "finite (future_arrivals df st sel)" by (simp add: future_arrivals_def)
  have "Min (future_arrivals df st sel) \<in> future_arrivals df st sel"
    using fin False by (rule Min_in)
  then obtain j where j: "j < length df" "\<not> p_is_completed st ! j"
    "p_current_time st < arrival_time (df ! j)"
    "arrival_time (df ! j) = Min (future_arrivals df st sel)"
    by (auto simp: future_arrivals_def)
  have "slice_length df st sel = Min (future_arrivals df st sel) - p_current_time st"
    using assms False by (simp add: slice_length_def split: if_splits)
  then show ?thesis using j by auto
qed

lemma prio_slice_step:
  assumes inv: "prio_inv df preemptive st"
    and sel: "sel < length df" "\<not> p_is_completed st ! sel"
       "arrival_time (df ! sel) \<le> p_current_time st"
    and e: "1 \<le> e" "e \<le> p_remaining_burst_time st ! sel"
    and sched: "sched' = p_schedule st @
           [\<lparr>seg_pid = pid (df ! sel), start_time = p_current_time st,
             end_time = p_current_time st + e\<rparr>] \<or>
        (p_prev_process st = Some sel \<and>
         sched' = butlast (p_schedule st) @
           [(last (p_schedule st))\<lparr>end_time := p_current_time st + e\<rparr>])"
    and pv: "if preemptive then pv = Some sel else pv = None"
  shows "prio_inv df preemptive (prio_after st sel e sched' pv)"
proof -
  let ?rem = "p_remaining_burst_time st"
  let ?ic = "p_is_completed st"
  let ?t = "p_current_time st"
  let ?st' = "prio_after st sel e sched' pv"
  have shape: "prio_shape df st" and clock: "prio_clock df st"
    and prev: "prio_prev df preemptive st" and ids: "ids_ok df \<Longrightarrow> prio_ids df st"
    using inv by (simp_all add: prio_inv_def)
  have len: "length ?rem = length df" "length (p_completion_time st) = length df"
    "length ?ic = length df"
    and cnt: "p_completed st = length (filter (\<lambda>b. b) ?ic)"
    and rem_ic: "\<And>j. j < length df \<Longrightarrow>
        (?ic ! j \<longrightarrow> ?rem ! j = 0) \<and> (\<not> ?ic ! j \<longrightarrow> 0 < ?rem ! j) \<and>
        ?rem ! j \<le> burst_time (df ! j)"
    using shape by (simp_all add: prio_shape_def)
  have ch: "chain 0 (p_schedule st) ?t" using clock by (simp add: prio_clock_def)
  define rem' where "rem' = ?rem[sel := ?rem ! sel - e]"
  define t' where "t' = ?t + e"
  have rem'_sel: "rem' ! sel = ?rem ! sel - e" using sel(1) len by (simp add: rem'_def)
  have rem'_other: "j \<noteq> sel \<Longrightarrow> rem' ! j = ?rem ! j" for j by (simp add: rem'_def)
  have t_lt: "?t < t'" using e by (simp add: t'_def)
  have s: "p_schedule ?st' = sched'" "p_current_time ?st' = t'"
    "p_remaining_burst_time ?st' = rem'" "p_prev_process ?st' = pv"
    "p_completion_time ?st' =
       (if rem' ! sel = 0 then (p_completion_time st)[sel := t'] else p_completion_time st)"
    "p_is_completed ?st' = (if rem' ! sel = 0 then ?ic[sel := True] else ?ic)"
    "p_completed ?st' = (if rem' ! sel = 0 then p_completed st + 1 else p_completed st)"
    by (simp_all add: prio_after_sel rem'_def [symmetric] t'_def [symmetric] rem'_sel)
  have ic'_sel: "p_is_completed ?st' ! sel \<longleftrightarrow> rem' ! sel = 0"
    using sel len by (simp add: s)
  have ic'_other: "j \<noteq> sel \<Longrightarrow> p_is_completed ?st' ! j = ?ic ! j" for j
    by (simp add: s)
  have ct'_other: "j \<noteq> sel \<Longrightarrow> p_completion_time ?st' ! j = p_completion_time st ! j" for j
    by (simp add: s)
  have ct'_sel: "rem' ! sel = 0 \<Longrightarrow> p_completion_time ?st' ! sel = t'"
    using sel len by (simp add: s)
  have sched_facts: "chain 0 sched' t' \<and> sched' \<noteq> [] \<and> seg_pid (last sched') = pid (df ! sel) \<and>
      (\<forall>q. busy_time q sched' =
         busy_time q (p_schedule st) + (if pid (df ! sel) = q \<and> q \<noteq> Idle then e else 0)) \<and>
      (\<forall>q. last_end q sched' =
         (if pid (df ! sel) = q then Some t' else last_end q (p_schedule st)))"
    using sched
  proof
    assume "sched' = p_schedule st @
           [\<lparr>seg_pid = pid (df ! sel), start_time = ?t, end_time = ?t + e\<rparr>]"
    then show ?thesis using ch t_lt by (simp add: t'_def duration_def)
  next
    assume a: "p_prev_process st = Some sel \<and>
         sched' = butlast (p_schedule st) @ [(last (p_schedule st))\<lparr>end_time := ?t + e\<rparr>]"
    then have ne: "p_schedule st \<noteq> []"
      and lp: "seg_pid (last (p_schedule st)) = pid (df ! sel)"
      using prev sel(2) by (simp_all add: prio_prev_def)
    from chain_set_last [OF ch ne t_lt]
    have c: "chain 0 sched' t'" and le: "end_time (last (p_schedule st)) = ?t"
      using a by (simp_all add: t'_def)
    have b: "busy_time q sched' =
         busy_time q (p_schedule st) + (if pid (df ! sel) = q \<and> q \<noteq> Idle then e else 0)" for q
      using a busy_time_set_last [OF ne, of q "?t + e"] lp le by simp
    have l: "last_end q sched' =
         (if pid (df ! sel) = q then Some t' else last_end q (p_schedule st))" for q
      using a last_end_set_last [OF ne, of q "?t + e"] lp by (simp add: t'_def)
    have "sched' \<noteq> []" "seg_pid (last sched') = pid (df ! sel)"
      using a lp by simp_all
    then show ?thesis using c b l by blast
  qed
  have shape': "prio_shape df ?st'"
  proof -
    have c: "p_completed ?st' = length (filter (\<lambda>b. b) (p_is_completed ?st'))"
      using cnt sel len by (simp add: s count_true_update)
    have r: "(p_is_completed ?st' ! j \<longrightarrow> rem' ! j = 0) \<and>
        (\<not> p_is_completed ?st' ! j \<longrightarrow> 0 < rem' ! j) \<and> rem' ! j \<le> burst_time (df ! j)"
      if j: "j < length df" for j
    proof (cases "j = sel")
      case True
      then show ?thesis using rem_ic [OF sel(1)] e ic'_sel rem'_sel by auto
    next
      case False
      then show ?thesis using rem_ic [OF j] ic'_other [of j] rem'_other [of j] by simp
    qed
    have l: "length rem' = length df" "length (p_completion_time ?st') = length df"
      "length (p_is_completed ?st') = length df"
      using len by (simp_all add: s rem'_def)
    show ?thesis unfolding prio_shape_def s(3) using l c r by blast
  qed
  have prog: "arrival_time (df ! j) + (burst_time (df ! j) - rem' ! j) \<le> t'"
    if j: "j < length df" "rem' ! j < burst_time (df ! j)" for j
  proof -
    have old: "?rem ! j < burst_time (df ! j) \<Longrightarrow>
        arrival_time (df ! j) + (burst_time (df ! j) - ?rem ! j) \<le> ?t"
      using clock j(1) by (simp add: prio_clock_def)
    show ?thesis
    proof (cases "j = sel")
      case True
      show ?thesis
      proof (cases "?rem ! sel < burst_time (df ! sel)")
        case True
        then show ?thesis using old \<open>j = sel\<close> rem'_sel by (simp add: t'_def)
      next
        case False
        then have "?rem ! sel = burst_time (df ! sel)" using rem_ic [OF sel(1)] by simp
        then show ?thesis using sel(3) \<open>j = sel\<close> rem'_sel by (simp add: t'_def)
      qed
    next
      case False
      then show ?thesis using old j t_lt rem'_other [of j] by simp
    qed
  qed
  have clock': "prio_clock df ?st'"
  proof -
    have fin: "arrival_time (df ! j) + burst_time (df ! j) \<le> p_completion_time ?st' ! j"
      if j: "j < length df" "p_is_completed ?st' ! j" for j
    proof (cases "j = sel")
      case True
      then have z: "rem' ! sel = 0" using j ic'_sel by simp
      then have "rem' ! sel < burst_time (df ! sel)"
        using rem_ic [OF sel(1)] sel(2) rem'_sel e by simp
      from prog [OF sel(1) this] show ?thesis using True z ct'_sel by simp
    next
      case False
      then show ?thesis
        using clock j ic'_other [of j] ct'_other [of j] by (simp add: prio_clock_def)
    qed
    show ?thesis unfolding prio_clock_def s(1,2,3) using sched_facts prog fin by blast
  qed
  have prev': "prio_prev df preemptive ?st'"
  proof (cases preemptive)
    case True
    then have "pv = Some sel" using pv by simp
    then show ?thesis
      unfolding prio_prev_def s(1,2,4) using True sel sched_facts t_lt by auto
  next
    case False
    then have "pv = None" using pv by simp
    then show ?thesis unfolding prio_prev_def s(4) by simp
  qed
  have ids': "prio_ids df ?st'" if ok: "ids_ok df"
  proof -
    have old: "\<And>j. j < length df \<Longrightarrow>
        busy_time (pid (df ! j)) (p_schedule st) + ?rem ! j = burst_time (df ! j) \<and>
        (?ic ! j \<longrightarrow> last_end (pid (df ! j)) (p_schedule st) = Some (p_completion_time st ! j))"
      using ids [OF ok] by (simp add: prio_ids_def)
    have "busy_time (pid (df ! j)) sched' + rem' ! j = burst_time (df ! j) \<and>
        (p_is_completed ?st' ! j \<longrightarrow>
           last_end (pid (df ! j)) sched' = Some (p_completion_time ?st' ! j))"
      if j: "j < length df" for j
    proof (cases "j = sel")
      case True
      have ni: "pid (df ! sel) \<noteq> Idle" using ok sel(1) by (rule ids_ok_not_idle)
      show ?thesis
        using old [OF sel(1)] True ni rem'_sel sched_facts ic'_sel ct'_sel by simp
    next
      case False
      have "pid (df ! sel) \<noteq> pid (df ! j)" using ids_ok_neq [OF ok sel(1) j] False by simp
      then show ?thesis
        using old [OF j] False rem'_other [of j] sched_facts ic'_other [of j] ct'_other [of j]
        by simp
    qed
    then show ?thesis unfolding prio_ids_def s(1,3) by blast
  qed
  show ?thesis using shape' clock' prev' ids' by (simp add: prio_inv_def)
qed

lemma prio_slice_measure:
  assumes shape: "prio_shape df st" and sel: "sel < length df" "\<not> p_is_completed st ! sel"
    and e: "0 \<le> e"
    and cases: "p_remaining_burst_time st ! sel - e = 0 \<or>
      (\<exists>j<length df. \<not> p_is_completed st ! j \<and> p_current_time st < arrival_time (df ! j) \<and>
           arrival_time (df ! j) \<le> p_current_time st + e)"
  shows "prio_measure df (prio_after st sel e sched' pv) < prio_measure df st"
proof (cases "p_remaining_burst_time st ! sel - e = 0")
  case True
  have len: "length (p_is_completed st) = length df"
    and cnt: "p_completed st = length (filter (\<lambda>b. b) (p_is_completed st))"
    using shape by (simp_all add: prio_shape_def)
  have "\<not> (\<forall>i<length (p_is_completed st). p_is_completed st ! i)"
    using sel len by auto
  then have "length (filter (\<lambda>b. b) (p_is_completed st)) \<noteq> length (p_is_completed st)"
    using count_true_full [of "p_is_completed st"] by simp
  moreover have "length (filter (\<lambda>b. b) (p_is_completed st)) \<le> length (p_is_completed st)"
    by simp
  ultimately have lt: "p_completed st < length df" using cnt len by linarith
  have k: "length df - p_completed (prio_after st sel e sched' pv) < length df - p_completed st"
    using True lt by (simp add: prio_after_sel)
  have c: "card {i. i < length df \<and> \<not> p_is_completed (prio_after st sel e sched' pv) ! i \<and>
              p_current_time (prio_after st sel e sched' pv) < arrival_time (df ! i)} \<le> length df"
    by (rule future_card_le)
  show ?thesis
    unfolding prio_measure_def using k c by (intro lex_measure) blast
next
  case False
  then obtain j where j: "j < length df" "\<not> p_is_completed st ! j"
    "p_current_time st < arrival_time (df ! j)" "arrival_time (df ! j) \<le> p_current_time st + e"
    using cases by blast
  have "card {i. i < length df \<and> \<not> p_is_completed st ! i \<and>
                 p_current_time st + e < arrival_time (df ! i)} <
        card {i. i < length df \<and> \<not> p_is_completed st ! i \<and>
                 p_current_time st < arrival_time (df ! i)}"
    by (rule future_card_less [of j]) (use j e in simp_all)
  then show ?thesis
    unfolding prio_measure_def
    by (intro lex_measure) (use False in \<open>simp add: prio_after_sel\<close>)
qed

lemma prio_exec_step:
  assumes inv: "prio_inv df preemptive st" and sel: "prio_select df st = Some sel"
  shows "\<exists>st'. prio_body df preemptive st = Some (Inr st') \<and> prio_inv df preemptive st' \<and>
           prio_measure df st' < prio_measure df st"
proof -
  let ?rem = "p_remaining_burst_time st"
  let ?t = "p_current_time st"
  have shape: "prio_shape df st" and prev: "prio_prev df preemptive st"
    using inv by (simp_all add: prio_inv_def)
  note c = scan_min_snd_Some [OF sel [unfolded prio_select_def]]
  have s: "sel < length df" "\<not> p_is_completed st ! sel" "arrival_time (df ! sel) \<le> ?t"
    using c by simp_all
  have len: "sel < length ?rem" and pos: "0 < ?rem ! sel"
    using shape s by (simp_all add: prio_shape_def)
  show ?thesis
  proof (cases preemptive)
    case False
    have pn: "p_prev_process st = None" using prev False by (simp add: prio_prev_def)
    define sched' where "sched' = p_schedule st @
           [\<lparr>seg_pid = pid (df ! sel), start_time = ?t, end_time = ?t + ?rem ! sel\<rparr>]"
    have body: "prio_body df preemptive st = Some (Inr (prio_after st sel (?rem ! sel) sched' None))"
      using prio_body_nonpreemptive [OF sel len] False pn by (simp add: sched'_def)
    have i: "prio_inv df preemptive (prio_after st sel (?rem ! sel) sched' None)"
      by (rule prio_slice_step [OF inv s]) (use pos False in \<open>simp_all add: sched'_def\<close>)
    have m: "prio_measure df (prio_after st sel (?rem ! sel) sched' None) < prio_measure df st"
      by (rule prio_slice_measure [OF shape s(1,2)]) (use pos in simp_all)
    show ?thesis using body i m by blast
  next
    case True
    define e where "e = slice_length df st sel"
    have e: "1 \<le> e" "e \<le> ?rem ! sel"
      using slice_length_bounds [OF pos, of df] by (simp_all add: e_def)
    have ne: "p_prev_process st = Some sel \<longrightarrow> p_schedule st \<noteq> []"
      using prev s(2) by (simp add: prio_prev_def)
    define sched' where "sched' =
        (if p_prev_process st \<noteq> Some sel
         then p_schedule st @
           [\<lparr>seg_pid = pid (df ! sel), start_time = ?t, end_time = ?t + e\<rparr>]
         else butlast (p_schedule st) @ [(last (p_schedule st))\<lparr>end_time := ?t + e\<rparr>])"
    have body: "prio_body df preemptive st = Some (Inr (prio_after st sel e sched' (Some sel)))"
      using prio_body_preemptive [OF sel len ne] True by (simp add: sched'_def e_def)
    have i: "prio_inv df preemptive (prio_after st sel e sched' (Some sel))"
      by (rule prio_slice_step [OF inv s e]) (use True in \<open>auto simp: sched'_def\<close>)
    have "?rem ! sel - e = 0 \<or>
      (\<exists>j<length df. \<not> p_is_completed st ! j \<and> ?t < arrival_time (df ! j) \<and>
           arrival_time (df ! j) \<le> ?t + e)"
    proof (cases "?rem ! sel - e = 0")
      case True
      then show ?thesis by simp
    next
      case False
      then have "slice_length df st sel < ?rem ! sel" using e by (simp add: e_def)
      from slice_length_preempted [OF this] show ?thesis by (auto simp: e_def)
    qed
    then have m: "prio_measure df (prio_after st sel e sched' (Some sel)) < prio_measure df st"
      by (intro prio_slice_measure [OF shape s(1,2)]) (use e in simp_all)
    show ?thesis using body i m by blast
  qed
qed

lemma prio_step:
  assumes inv: "prio_inv df preemptive st" and run: "p_completed st \<noteq> length df"
  shows "\<exists>st'. prio_body df preemptive st = Some (Inr st') \<and> prio_inv df preemptive st' \<and>
           prio_measure df st' < prio_measure df st"
proof (cases "prio_select df st")
  case None
  from prio_idle_step [OF inv run None] show ?thesis by blast
next
  case (Some sel)
  from prio_exec_step [OF inv Some] show ?thesis .
qed

lemma prio_while_total:
  "prio_inv df preemptive st \<Longrightarrow>
     \<exists>st'. prio_while df preemptive st = Some (Inr st') \<and> prio_inv df preemptive st' \<and>
           p_completed st' = length df"
proof (induction "prio_measure df st" arbitrary: st rule: less_induct)
  case less
  show ?case
  proof (cases "p_completed st = length df")
    case True
    then show ?thesis using less.prems by (subst prio_while.simps) simp
  next
    case False
    from prio_step [OF less.prems False] obtain st1 where
      st1: "prio_body df preemptive st = Some (Inr st1)" "prio_inv df preemptive st1"
        "prio_measure df st1 < prio_measure df st"
      by blast
    from less.hyps [OF st1(3) st1(2)] obtain st' where
      "prio_while df preemptive st1 = Some (Inr st')" "prio_inv df preemptive st'"
      "p_completed st' = length df"
      by blast
    then show ?thesis using False st1(1) by (subst prio_while.simps) simp
  qed
qed

section \<open>Results of the four entry points\<close>

lemma metrics_frame_truncate: "map process.truncate (metrics_frame df ct tat wt) = df"
proof -
  have "map process.truncate (metrics_frame df ct tat wt) = map (\<lambda>i. df ! i) [0..<length df]"
    by (simp add: metrics_frame_def process.defs metrics_row.defs)
  then show ?thesis by (simp add: map_nth)
qed

lemma metrics_frame_set:
  "r \<in> set (metrics_frame df ct tat wt) \<longleftrightarrow>
     (\<exists>i<length df. r = process.extend (df ! i) (metrics_row.fields (ct ! i) (tat ! i) (wt ! i)))"
  by (auto simp: metrics_frame_def)

lemma row_fields [simp]:
  "pid (process.extend p (metrics_row.fields c t w)) = pid p"
  "arrival_time (process.extend p (metrics_row.fields c t w)) = arrival_time p"
  "burst_time (process.extend p (metrics_row.fields c t w)) = burst_time p"
  "completion_time (process.extend p (metrics_row.fields c t w)) = c"
  "turnaround_time (process.extend p (metrics_row.fields c t w)) = t"
  "waiting_time (process.extend p (metrics_row.fields c t w)) = w"
  by (simp_all add: process.defs metrics_row.defs)

lemma run_post_from_index:
  assumes ne: "sched \<noteq> []" and ch: "chain 0 sched t"
    and rows: "\<forall>i<length df. tat ! i = ct ! i - arrival_time (df ! i) \<and>
        wt ! i = tat ! i - burst_time (df ! i) \<and>
        arrival_time (df ! i) + burst_time (df ! i) \<le> ct ! i"
    and ids: "ids_ok df \<Longrightarrow> \<forall>i<length df.
        busy_time (pid (df ! i)) sched = burst_time (df ! i) \<and>
        last_end (pid (df ! i)) sched = Some (ct ! i)"
  shows "run_post df sched (metrics_frame df ct tat wt)"
proof -
  have t: "tiles sched" using ch ne by (rule chain_tiles)
  have m: "metrics_consistent (metrics_frame df ct tat wt)"
    unfolding metrics_consistent_def
  proof
    fix r assume "r \<in> set (metrics_frame df ct tat wt)"
    then obtain i where i: "i < length df"
      "r = process.extend (df ! i) (metrics_row.fields (ct ! i) (tat ! i) (wt ! i))"
      unfolding metrics_frame_set by blast
    show "turnaround_time r = completion_time r - arrival_time r \<and>
        waiting_time r = turnaround_time r - burst_time r \<and>
        burst_time r \<le> turnaround_time r \<and> 0 \<le> waiting_time r"
      using rows [rule_format, OF i(1)] i(2) by simp
  qed
  have c: "conserves df sched \<and> completion_from_schedule sched (metrics_frame df ct tat wt)"
    if ok: "ids_ok df"
  proof
    show "conserves df sched"
      unfolding conserves_def
    proof
      fix p assume "p \<in> set df"
      then obtain i where "i < length df" "p = df ! i" by (auto simp: in_set_conv_nth)
      then show "busy_time (pid p) sched = burst_time p" using ids [OF ok] by simp
    qed
    show "completion_from_schedule sched (metrics_frame df ct tat wt)"
      unfolding completion_from_schedule_def
    proof
      fix r assume "r \<in> set (metrics_frame df ct tat wt)"
      then obtain i where i: "i < length df"
        "r = process.extend (df ! i) (metrics_row.fields (ct ! i) (tat ! i) (wt ! i))"
        unfolding metrics_frame_set by blast
      show "last_end (pid r) sched = Some (completion_time r)"
        using ids [OF ok] i by simp
    qed
  qed
  show ?thesis unfolding run_post_def using t m c by (simp add: metrics_frame_truncate)
qed

lemma positive_bursts_nth:
  "positive_bursts ps \<Longrightarrow> \<forall>i<length ps. 0 < burst_time (ps ! i)"
  by (simp add: positive_bursts_def)

lemma distinct_map_insort_key:
  "distinct (map g (insort_key f x xs)) \<longleftrightarrow> g x \<notin> g ` set xs \<and> distinct (map g xs)"
  by (induction xs) (auto simp: set_insort_key)

lemma distinct_map_sort_key:
  "distinct (map g (sort_key f xs)) \<longleftrightarrow> distinct (map g xs)"
  by (induction xs) (simp_all add: distinct_map_insort_key)

lemma sort_values_props:
  "set (sort_values ps) = set ps" "length (sort_values ps) = length ps"
  "ids_ok (sort_values ps) \<longleftrightarrow> ids_ok ps"
proof -
  show "set (sort_values ps) = set ps" "length (sort_values ps) = length ps"
    by (simp_all add: sort_values_def)
  have "distinct (map pid (sort_values ps)) \<longleftrightarrow> distinct (map pid ps)"
    unfolding sort_values_def by (rule distinct_map_sort_key)
  then show "ids_ok (sort_values ps) \<longleftrightarrow> ids_ok ps"
    by (simp add: ids_ok_def sort_values_def)
qed

lemma fcfs_post:
  assumes pos: "positive_bursts ps"
  shows "run_post (sort_values ps) (fst (fcfs ps)) (snd (fcfs ps))"
proof -
  define df where "df = sort_values ps"
  define st where "st = fold (fcfs_body df) [0..<length df] (fcfs_init (length df))"
  have res: "fcfs ps = (f_schedule st,
      metrics_frame df (f_completion_time st) (f_turnaround_time st) (f_waiting_time st))"
    by (simp add: fcfs_def Let_def df_def st_def)
  have p: "\<forall>i<length df. 0 < burst_time (df ! i)"
  proof (intro allI impI)
    fix i assume "i < length df"
    then have "df ! i \<in> set ps" unfolding df_def using sort_values_props(1) nth_mem by blast
    then show "0 < burst_time (df ! i)" using pos by (simp add: positive_bursts_def)
  qed
  have n: "0 < length df" using pos by (simp add: positive_bursts_def df_def sort_values_props)
  have inv: "fcfs_inv df (length df) st"
    unfolding st_def by (rule fcfs_inv_fold [OF p]) simp
  have "run_post df (f_schedule st)
      (metrics_frame df (f_completion_time st) (f_turnaround_time st) (f_waiting_time st))"
  proof (rule run_post_from_index)
    show "f_schedule st \<noteq> []" using inv n by (simp add: fcfs_inv_def)
    show "chain 0 (f_schedule st) (f_current_time st)" using inv by (simp add: fcfs_inv_def)
    show "\<forall>i<length df.
       f_turnaround_time st ! i = f_completion_time st ! i - arrival_time (df ! i) \<and>
       f_waiting_time st ! i = f_turnaround_time st ! i - burst_time (df ! i) \<and>
       arrival_time (df ! i) + burst_time (df ! i) \<le> f_completion_time st ! i"
      using inv by (simp add: fcfs_inv_def)
    show "\<forall>i<length df.
       busy_time (pid (df ! i)) (f_schedule st) = burst_time (df ! i) \<and>
       last_end (pid (df ! i)) (f_schedule st) = Some (f_completion_time st ! i)"
      if "ids_ok df"
      using inv that by (simp add: fcfs_inv_def)
  qed
  then show ?thesis by (simp add: res df_def)
qed

lemma sjf_post:
  assumes pos: "positive_bursts ps"
  shows "\<exists>sched m. sjf ps = Some (sched, m) \<and> run_post ps sched m"
proof -
  from sjf_while_total [OF positive_bursts_nth [OF pos] sjf_inv_init] obtain st where
    st: "sjf_while ps (sjf_init (length ps)) = Some st" "sjf_inv ps st"
      "s_completed st = length ps"
    by blast
  have res: "sjf ps = Some (s_schedule st,
      metrics_frame ps (s_completion_time st) (s_turnaround_time st) (s_waiting_time st))"
    using st(1) by (simp add: sjf_def Let_def)
  have n: "0 < length ps" using pos by (simp add: positive_bursts_def)
  have "length (filter (\<lambda>b. b) (s_is_completed st)) = length (s_is_completed st)"
    using st(2,3) by (simp add: sjf_inv_def)
  then have all: "\<forall>i<length ps. s_is_completed st ! i"
    using count_true_full [of "s_is_completed st"] st(2) by (simp add: sjf_inv_def)
  have "run_post ps (s_schedule st)
      (metrics_frame ps (s_completion_time st) (s_turnaround_time st) (s_waiting_time st))"
  proof (rule run_post_from_index)
    show "s_schedule st \<noteq> []" using st(2,3) n by (auto simp: sjf_inv_def)
    show "chain 0 (s_schedule st) (s_current_time st)" using st(2) by (simp add: sjf_inv_def)
    show "\<forall>i<length ps.
       s_turnaround_time st ! i = s_completion_time st ! i - arrival_time (ps ! i) \<and>
       s_waiting_time st ! i = s_turnaround_time st ! i - burst_time (ps ! i) \<and>
       arrival_time (ps ! i) + burst_time (ps ! i) \<le> s_completion_time st ! i"
      using st(2) all by (simp add: sjf_inv_def)
    show "\<forall>i<length ps.
       busy_time (pid (ps ! i)) (s_schedule st) = burst_time (ps ! i) \<and>
       last_end (pid (ps ! i)) (s_schedule st) = Some (s_completion_time st ! i)"
      if "ids_ok ps"
      using st(2) all that by (simp add: sjf_inv_def)
  qed
  then show ?thesis using res by blast
qed

lemma rr_post:
  assumes pos: "positive_bursts ps" and tq: "1 \<le> time_quantum"
  shows "\<exists>sched m. round_robin ps time_quantum = Some (sched, m) \<and> run_post ps sched m"
proof -
  note p = positive_bursts_nth [OF pos]
  from rr_while_total [OF tq rr_inv_init [OF p]] obtain st where
    st: "rr_while ps time_quantum (rr_init ps) = Some st" "rr_inv ps st"
      "r_ready_queue st = []" "sum_list (r_remaining_burst_time st) \<le> 0"
    by blast
  define tat where "tat = map (\<lambda>i. r_completion_time st ! i - arrival_time (ps ! i))
     [0..<length ps]"
  define wt where "wt = map (\<lambda>i. tat ! i - burst_time (ps ! i)) [0..<length ps]"
  have res: "round_robin ps time_quantum =
      Some (r_schedule st, metrics_frame ps (r_completion_time st) tat wt)"
    using st(1) by (simp add: round_robin_def Let_def tat_def wt_def)
  have shape: "rr_shape ps st" and clock: "rr_clock ps st"
    and ids: "ids_ok ps \<Longrightarrow> rr_ids ps st"
    using st(2) by (simp_all add: rr_inv_def)
  have len: "length (r_remaining_burst_time st) = length ps"
    and nonneg: "\<forall>i<length ps. 0 \<le> r_remaining_burst_time st ! i"
    using shape by (simp_all add: rr_shape_def)
  have zero: "r_remaining_burst_time st ! i = 0" if i: "i < length ps" for i
  proof -
    have nn: "\<And>x. x \<in> set (r_remaining_burst_time st) \<Longrightarrow> 0 \<le> x"
      using nonneg len by (metis in_set_conv_nth)
    then have "0 \<le> sum_list (r_remaining_burst_time st)" by (rule sum_list_nonneg)
    then have "sum_list (r_remaining_burst_time st) = 0" using st(4) by simp
    then have "\<forall>x\<in>set (r_remaining_burst_time st). x = 0"
      using sum_list_nonneg_eq_0_iff [of "r_remaining_burst_time st"] nn by blast
    then show ?thesis using i len by simp
  qed
  have n: "0 < length ps" using pos by (simp add: positive_bursts_def)
  have "run_post ps (r_schedule st) (metrics_frame ps (r_completion_time st) tat wt)"
  proof (rule run_post_from_index)
    have "r_remaining_burst_time st ! 0 \<noteq> burst_time (ps ! 0)"
      using zero [OF n] p n by auto
    then show "r_schedule st \<noteq> []" using clock n unfolding rr_clock_def by blast
    show "chain 0 (r_schedule st) (r_current_time st)" using clock by (simp add: rr_clock_def)
    show "\<forall>i<length ps.
       tat ! i = r_completion_time st ! i - arrival_time (ps ! i) \<and>
       wt ! i = tat ! i - burst_time (ps ! i) \<and>
       arrival_time (ps ! i) + burst_time (ps ! i) \<le> r_completion_time st ! i"
      using clock zero by (simp add: rr_clock_def tat_def wt_def)
    show "\<forall>i<length ps.
       busy_time (pid (ps ! i)) (r_schedule st) = burst_time (ps ! i) \<and>
       last_end (pid (ps ! i)) (r_schedule st) = Some (r_completion_time st ! i)"
      if "ids_ok ps"
      using ids [OF that] zero by (simp add: rr_ids_def)
  qed
  then show ?thesis using res by blast
qed

lemma prio_post:
  assumes pos: "positive_bursts ps"
  shows "\<exists>sched m. priority_scheduling ps preemptive = Some (Inr (sched, m)) \<and>
           run_post ps sched m"
proof -
  note p = positive_bursts_nth [OF pos]
  from prio_while_total [OF prio_inv_init [OF p]] obtain st where
    st: "prio_while ps preemptive (prio_init ps) = Some (Inr st)" "prio_inv ps preemptive st"
      "p_completed st = length ps"
    by blast
  define tat where "tat = map (\<lambda>i. p_completion_time st ! i - arrival_time (ps ! i))
     [0..<length ps]"
  define wt where "wt = map (\<lambda>i. tat ! i - burst_time (ps ! i)) [0..<length ps]"
  have res: "priority_scheduling ps preemptive =
      Some (Inr (p_schedule st, metrics_frame ps (p_completion_time st) tat wt))"
    using st(1) by (simp add: priority_scheduling_def Let_def tat_def wt_def)
  have shape: "prio_shape ps st" and clock: "prio_clock ps st"
    and ids: "ids_ok ps \<Longrightarrow> prio_ids ps st"
    using st(2) by (simp_all add: prio_inv_def)
  have len: "length (p_is_completed st) = length ps"
    and cnt: "p_completed st = length (filter (\<lambda>b. b) (p_is_completed st))"
    and rem_ic: "\<forall>i<length ps. p_is_completed st ! i \<longrightarrow> p_remaining_burst_time st ! i = 0"
    using shape by (simp_all add: prio_shape_def)
  have all: "\<forall>i<length ps. p_is_completed st ! i"
    using count_true_full [of "p_is_completed st"] st(3) cnt len by simp
  have zero: "\<forall>i<length ps. p_remaining_burst_time st ! i = 0" using all rem_ic by blast
  have n: "0 < length ps" using pos by (simp add: positive_bursts_def)
  have "run_post ps (p_schedule st) (metrics_frame ps (p_completion_time st) tat wt)"
  proof (rule run_post_from_index)
    show "p_schedule st \<noteq> []" using clock st(3) n by (auto simp: prio_clock_def)
    show "chain 0 (p_schedule st) (p_current_time st)" using clock by (simp add: prio_clock_def)
    show "\<forall>i<length ps.
       tat ! i = p_completion_time st ! i - arrival_time (ps ! i) \<and>
       wt ! i = tat ! i - burst_time (ps ! i) \<and>
       arrival_time (ps ! i) + burst_time (ps ! i) \<le> p_completion_time st ! i"
      using clock all by (simp add: prio_clock_def tat_def wt_def)
    show "\<forall>i<length ps.
       busy_time (pid (ps ! i)) (p_schedule st) = burst_time (ps ! i) \<and>
       last_end (pid (ps ! i)) (p_schedule st) = Some (p_completion_time st ! i)"
      if "ids_ok ps"
      using ids [OF that] zero all by (simp add: prio_ids_def)
  qed
  then show ?thesis using res by blast
qed

section \<open>Tiling, conservation and metrics\<close>

lemma valid_input_positive: "valid_input ps \<Longrightarrow> positive_bursts ps"
  by (auto simp: valid_input_def positive_bursts_def)

lemma ids_ok_iff: "ids_ok ps \<longleftrightarrow> unique_ids ps \<and> no_idle_id ps"
  by (simp add: ids_ok_def unique_ids_def no_idle_id_def)

lemma conserves_sort_values: "conserves (sort_values ps) sched \<longleftrightarrow> conserves ps sched"
  by (simp add: conserves_def sort_values_props)

text \<open>
  Claim C5, with the hypotheses it needs. For every non-empty valid input (arrival times
  \<open>\<ge> 0\<close>, burst times \<open>> 0\<close>, unique ids) in which no process id is the string \<^verbatim>\<open>'Idle'\<close>
  and whose times fit 64-bit integers (\<open>fits_int64\<close>: the latest arrival time plus the sum
  of the burst times is below \<open>2^63\<close>), and every time quantum \<open>\<ge> 1\<close>, each of \<open>fcfs\<close>,
  \<open>sjf\<close>, \<open>round_robin\<close> and \<open>priority_scheduling\<close> (in both modes) returns a schedule
  that tiles \<open>[0, makespan)\<close>: it is non-empty, its first segment starts at 0, every
  segment ends after it starts, each segment ends where the next one starts; and for each
  process the durations of its non-Idle segments add up to its burst time.
\<close>

theorem schedules_tile_and_conserve_burst:
  assumes "valid_input ps" and "unique_ids ps" and "no_idle_id ps" and "fits_int64 ps"
    and "1 \<le> time_quantum"
  shows "tiles (fst (fcfs ps)) \<and> conserves ps (fst (fcfs ps)) \<and>
    (\<exists>sched m. sjf ps = Some (sched, m) \<and> tiles sched \<and> conserves ps sched) \<and>
    (\<exists>sched m. round_robin ps time_quantum = Some (sched, m) \<and>
        tiles sched \<and> conserves ps sched) \<and>
    (\<exists>sched m. priority_scheduling ps preemptive = Some (Inr (sched, m)) \<and>
        tiles sched \<and> conserves ps sched)"
proof -
  have pos: "positive_bursts ps" using assms(1) by (rule valid_input_positive)
  have ok: "ids_ok ps" using assms(2,3) by (simp add: ids_ok_iff)
  have f: "tiles (fst (fcfs ps)) \<and> conserves ps (fst (fcfs ps))"
    using fcfs_post [OF pos] ok
    by (simp add: run_post_def sort_values_props conserves_sort_values)
  have s: "\<exists>sched m. sjf ps = Some (sched, m) \<and> tiles sched \<and> conserves ps sched"
    using sjf_post [OF pos] ok unfolding run_post_def by blast
  have r: "\<exists>sched m. round_robin ps time_quantum = Some (sched, m) \<and>
        tiles sched \<and> conserves ps sched"
    using rr_post [OF pos assms(5)] ok unfolding run_post_def by blast
  have p: "\<exists>sched m. priority_scheduling ps preemptive = Some (Inr (sched, m)) \<and>
        tiles sched \<and> conserves ps sched"
    using prio_post [OF pos, of preemptive] ok unfolding run_post_def by blast
  show ?thesis using f s r p by blast
qed

text \<open>
  The theorem at \<open>gap_example\<close> (two idle gaps), with quantum 2 and the preemptive mode.
\<close>

theorem schedules_tile_and_conserve_burst_witness:
  "valid_input gap_example \<and> unique_ids gap_example \<and> no_idle_id gap_example \<and>
   fits_int64 gap_example \<and>
   tiles (fst (fcfs gap_example)) \<and> conserves gap_example (fst (fcfs gap_example)) \<and>
   (\<exists>sched m. round_robin gap_example 2 = Some (sched, m) \<and>
        tiles sched \<and> conserves gap_example sched) \<and>
   (\<exists>sched m. priority_scheduling gap_example True = Some (Inr (sched, m)) \<and>
        tiles sched \<and> conserves gap_example sched) \<and>
   map seg_pid (fst (fcfs gap_example)) = [''P2'', ''Idle'', ''P1'', ''Idle'', ''P3'']"
proof -
  have v: "valid_input gap_example" by code_simp
  have u: "unique_ids gap_example" by code_simp
  have n: "no_idle_id gap_example" by code_simp
  have f: "fits_int64 gap_example" by code_simp
  have q: "(1::int) \<le> 2" by simp
  have e: "map seg_pid (fst (fcfs gap_example)) = [''P2'', ''Idle'', ''P1'', ''Idle'', ''P3'']"
    by code_simp
  show ?thesis
    using schedules_tile_and_conserve_burst [OF v u n f q, of True] v u n f e by blast
qed

text \<open>
  Claim C5 as stated fails in two ways. A valid input with unique ids may name a process
  \<^verbatim>\<open>'Idle'\<close>, the marker of idle segments: for the single process \<^verbatim>\<open>'Idle'\<close> (arrival 1,
  burst 1) \<open>fcfs\<close> returns two segments that both carry the pid \<^verbatim>\<open>'Idle'\<close>, and the
  non-Idle segments of the process add up to 0, not to its burst time 1. And on a frame
  with int64 columns the clock wraps around: for two processes arriving at 0 with burst
  time \<open>2^62\<close> each, \<open>fcfs\<close> returns a second segment from \<open>2^62\<close> to \<open>-2^63\<close>, which ends
  before it starts.
\<close>

theorem idle_pid_and_int64_overflow_break_tiling:
  "valid_input idle_named_example \<and> unique_ids idle_named_example \<and>
   fits_int64 idle_named_example \<and>
   fst (fcfs idle_named_example) =
     [\<lparr>seg_pid = ''Idle'', start_time = 0, end_time = 1\<rparr>,
      \<lparr>seg_pid = ''Idle'', start_time = 1, end_time = 2\<rparr>] \<and>
   \<not> conserves idle_named_example (fst (fcfs idle_named_example)) \<and>
   valid_input overflow_example \<and> unique_ids overflow_example \<and>
   no_idle_id overflow_example \<and>
   map_sum id fst (fcfs_int64 overflow_example) =
     Inr [\<lparr>seg_pid = ''P1'', start_time = 0, end_time = 2 ^ 62\<rparr>,
          \<lparr>seg_pid = ''P2'', start_time = 2 ^ 62, end_time = - (2 ^ 63)\<rparr>] \<and>
   \<not> tiles [\<lparr>seg_pid = ''P1'', start_time = 0, end_time = 2 ^ 62\<rparr>,
            \<lparr>seg_pid = ''P2'', start_time = 2 ^ 62, end_time = - (2 ^ 63)\<rparr>]"
  by code_simp

text \<open>
  Claim C6, with the hypothesis it needs. For every non-empty valid input (arrival times
  \<open>\<ge> 0\<close>, burst times \<open>> 0\<close>) whose times fit 64-bit integers (\<open>fits_int64\<close>) and every
  time quantum \<open>\<ge> 1\<close>, each algorithm returns a metrics table with one row per process
  (the rows of the input, for \<open>fcfs\<close> in sorted order), and every row satisfies
  \<open>turnaround_time = completion_time - arrival_time\<close>,
  \<open>waiting_time = turnaround_time - burst_time\<close>, \<open>turnaround_time \<ge> burst_time\<close> and
  \<open>waiting_time \<ge> 0\<close>.
\<close>

theorem metrics_rows_consistent:
  assumes "valid_input ps" and "fits_int64 ps" and "1 \<le> time_quantum"
  shows "metrics_consistent (snd (fcfs ps)) \<and>
    map process.truncate (snd (fcfs ps)) = sort_values ps \<and>
    (\<exists>sched m. sjf ps = Some (sched, m) \<and> metrics_consistent m \<and>
        map process.truncate m = ps) \<and>
    (\<exists>sched m. round_robin ps time_quantum = Some (sched, m) \<and> metrics_consistent m \<and>
        map process.truncate m = ps) \<and>
    (\<exists>sched m. priority_scheduling ps preemptive = Some (Inr (sched, m)) \<and>
        metrics_consistent m \<and> map process.truncate m = ps)"
proof -
  have pos: "positive_bursts ps" using assms(1) by (rule valid_input_positive)
  have f: "metrics_consistent (snd (fcfs ps)) \<and>
      map process.truncate (snd (fcfs ps)) = sort_values ps"
    using fcfs_post [OF pos] by (simp add: run_post_def)
  have s: "\<exists>sched m. sjf ps = Some (sched, m) \<and> metrics_consistent m \<and>
        map process.truncate m = ps"
    using sjf_post [OF pos] unfolding run_post_def by blast
  have r: "\<exists>sched m. round_robin ps time_quantum = Some (sched, m) \<and> metrics_consistent m \<and>
        map process.truncate m = ps"
    using rr_post [OF pos assms(3)] unfolding run_post_def by blast
  have p: "\<exists>sched m. priority_scheduling ps preemptive = Some (Inr (sched, m)) \<and>
        metrics_consistent m \<and> map process.truncate m = ps"
    using prio_post [OF pos, of preemptive] unfolding run_post_def by blast
  show ?thesis using f s r p by blast
qed

text \<open>
  The theorem at \<open>gap_example\<close>, with quantum 2 and the non-preemptive mode.
\<close>

theorem metrics_rows_consistent_witness:
  "valid_input gap_example \<and> fits_int64 gap_example \<and>
   metrics_consistent (snd (fcfs gap_example)) \<and>
   (\<exists>sched m. sjf gap_example = Some (sched, m) \<and> metrics_consistent m \<and>
        map process.truncate m = gap_example) \<and>
   (\<exists>sched m. round_robin gap_example 2 = Some (sched, m) \<and> metrics_consistent m \<and>
        map process.truncate m = gap_example) \<and>
   (\<exists>sched m. priority_scheduling gap_example False = Some (Inr (sched, m)) \<and>
        metrics_consistent m \<and> map process.truncate m = gap_example) \<and>
   map waiting_time (snd (fcfs gap_example)) = [0, 0, 0]"
proof -
  have v: "valid_input gap_example" by code_simp
  have f: "fits_int64 gap_example" by code_simp
  have q: "(1::int) \<le> 2" by simp
  have e: "map waiting_time (snd (fcfs gap_example)) = [0, 0, 0]" by code_simp
  show ?thesis
    using metrics_rows_consistent [OF v f q, of False] v f e by blast
qed

text \<open>
  Claim C6 as stated fails on a frame with int64 columns: for two processes arriving at 0
  with burst time \<open>2^62\<close> each, a valid input, the completion time of the second process
  wraps around to \<open>-2^63\<close>; \<open>fcfs\<close> returns for it the turnaround time \<open>-2^63\<close>, which
  is below its burst time.
\<close>

theorem fcfs_int64_overflow_breaks_metrics:
  "valid_input overflow_example \<and>
   map_sum id (\<lambda>r. map completion_time (snd r)) (fcfs_int64 overflow_example) =
     Inr [2 ^ 62, - (2 ^ 63)] \<and>
   map_sum id (\<lambda>r. map turnaround_time (snd r)) (fcfs_int64 overflow_example) =
     Inr [2 ^ 62, - (2 ^ 63)] \<and>
   map_sum id (\<lambda>r. map burst_time (snd r)) (fcfs_int64 overflow_example) =
     Inr [2 ^ 62, 2 ^ 62] \<and>
   map_sum id (\<lambda>r. metrics_consistent (snd r)) (fcfs_int64 overflow_example) = Inr False"
  by code_simp

section \<open>Termination and progress of the clock\<close>







section \<open>Round Robin with a time quantum that is not positive\<close>









section \<open>Order of the metrics rows\<close>

text \<open>
  Claim C10. The rows of the metrics table of \<open>fcfs\<close> are the processes of the input
  sorted ascending by \<open>(arrival_time, pid)\<close> (a permutation of the input, not its order);
  the rows of the tables of \<open>sjf\<close>, \<open>round_robin\<close> and \<open>priority_scheduling\<close> are the
  processes in the caller's input order. In all four, for a non-empty input with positive
  burst times, unique ids different from \<^verbatim>\<open>'Idle'\<close> and times that fit 64-bit integers
  (and a time quantum \<open>\<ge> 1\<close>), the completion time in each row is the end of the last
  segment of the schedule that carries the pid of that row.
\<close>

theorem metrics_row_order_and_ownership:
  "map process.truncate (snd (fcfs ps)) = sort_values ps \<and>
   sorted (map (\<lambda>p. (arrival_time p, pid p)) (sort_values ps)) \<and>
   mset (sort_values ps) = mset ps \<and>
   (\<forall>sched m. sjf ps = Some (sched, m) \<longrightarrow> map process.truncate m = ps) \<and>
   (\<forall>tq sched m. round_robin ps tq = Some (sched, m) \<longrightarrow> map process.truncate m = ps) \<and>
   (\<forall>pre sched m. priority_scheduling ps pre = Some (Inr (sched, m)) \<longrightarrow>
       map process.truncate m = ps) \<and>
   (positive_bursts ps \<longrightarrow> unique_ids ps \<longrightarrow> no_idle_id ps \<longrightarrow> fits_int64 ps \<longrightarrow>
      1 \<le> time_quantum \<longrightarrow>
      completion_from_schedule (fst (fcfs ps)) (snd (fcfs ps)) \<and>
      (\<exists>sched m. sjf ps = Some (sched, m) \<and> completion_from_schedule sched m) \<and>
      (\<exists>sched m. round_robin ps time_quantum = Some (sched, m) \<and>
          completion_from_schedule sched m) \<and>
      (\<exists>sched m. priority_scheduling ps preemptive = Some (Inr (sched, m)) \<and>
          completion_from_schedule sched m))"
proof -
  have f: "map process.truncate (snd (fcfs ps)) = sort_values ps"
    by (simp add: fcfs_def Let_def metrics_frame_truncate)
  have so: "sorted (map (\<lambda>p. (arrival_time p, pid p)) (sort_values ps))"
    unfolding sort_values_def by (rule sorted_sort_key)
  have ms: "mset (sort_values ps) = mset ps" by (simp add: sort_values_def)
  have s: "map process.truncate m = ps" if "sjf ps = Some (sched, m)" for sched m
    using that by (auto simp: sjf_def Let_def metrics_frame_truncate split: option.splits)
  have r: "map process.truncate m = ps" if "round_robin ps tq = Some (sched, m)" for tq sched m
    using that by (auto simp: round_robin_def Let_def metrics_frame_truncate split: option.splits)
  have p: "map process.truncate m = ps"
    if "priority_scheduling ps pre = Some (Inr (sched, m))" for pre sched m
    using that
    by (auto simp: priority_scheduling_def Let_def metrics_frame_truncate
        split: option.splits sum.splits)
  have own: "completion_from_schedule (fst (fcfs ps)) (snd (fcfs ps)) \<and>
      (\<exists>sched m. sjf ps = Some (sched, m) \<and> completion_from_schedule sched m) \<and>
      (\<exists>sched m. round_robin ps time_quantum = Some (sched, m) \<and>
          completion_from_schedule sched m) \<and>
      (\<exists>sched m. priority_scheduling ps preemptive = Some (Inr (sched, m)) \<and>
          completion_from_schedule sched m)"
    if pos: "positive_bursts ps" and u: "unique_ids ps" and n: "no_idle_id ps"
      and tq: "1 \<le> time_quantum"
  proof -
    have ok: "ids_ok ps" using u n by (simp add: ids_ok_iff)
    have a: "completion_from_schedule (fst (fcfs ps)) (snd (fcfs ps))"
      using fcfs_post [OF pos] ok by (simp add: run_post_def sort_values_props)
    have b: "\<exists>sched m. sjf ps = Some (sched, m) \<and> completion_from_schedule sched m"
      using sjf_post [OF pos] ok unfolding run_post_def by blast
    have c: "\<exists>sched m. round_robin ps time_quantum = Some (sched, m) \<and>
          completion_from_schedule sched m"
      using rr_post [OF pos tq] ok unfolding run_post_def by blast
    have d: "\<exists>sched m. priority_scheduling ps preemptive = Some (Inr (sched, m)) \<and>
          completion_from_schedule sched m"
      using prio_post [OF pos, of preemptive] ok unfolding run_post_def by blast
    show ?thesis using a b c d by blast
  qed
  show ?thesis using f so ms s r p own by blast
qed

text \<open>
  The theorem at \<open>gap_example\<close>: the table of \<open>fcfs\<close> has the rows \<open>P2, P1, P3\<close>, the table
  of \<open>sjf\<close> the rows \<open>P1, P2, P3\<close> of the input; each completion time is the end of the
  last segment of its process.
\<close>

theorem metrics_row_order_and_ownership_witness:
  "positive_bursts gap_example \<and> unique_ids gap_example \<and> no_idle_id gap_example \<and>
   fits_int64 gap_example \<and>
   map pid (snd (fcfs gap_example)) = [''P2'', ''P1'', ''P3''] \<and>
   map pid (snd (the (sjf gap_example))) = [''P1'', ''P2'', ''P3''] \<and>
   map process.truncate (snd (the (sjf gap_example))) = gap_example \<and>
   completion_from_schedule (fst (fcfs gap_example)) (snd (fcfs gap_example)) \<and>
   (\<exists>sched m. round_robin gap_example 2 = Some (sched, m) \<and>
          completion_from_schedule sched m)"
proof -
  have a: "positive_bursts gap_example" by code_simp
  have b: "unique_ids gap_example" by code_simp
  have c: "no_idle_id gap_example" by code_simp
  have f: "fits_int64 gap_example" by code_simp
  have d: "(1::int) \<le> 2" by simp
  have e: "map pid (snd (fcfs gap_example)) = [''P2'', ''P1'', ''P3'']" by code_simp
  have g: "map pid (snd (the (sjf gap_example))) = [''P1'', ''P2'', ''P3'']" by code_simp
  have h: "sjf gap_example = Some (fst (the (sjf gap_example)), snd (the (sjf gap_example)))"
    by code_simp
  note th = metrics_row_order_and_ownership [of gap_example 2 True]
  have i: "map process.truncate (snd (the (sjf gap_example))) = gap_example"
    using th h by blast
  show ?thesis using th a b c f d e g i by blast
qed

text \<open>
  Claim C10 as stated fails in its last part, which holds of no input without conditions.
  With a process named \<^verbatim>\<open>'Idle'\<close> (arrival 0, burst 1) before a process arriving at 5,
  \<open>fcfs\<close> returns the segments \<open>Idle:0-1, Idle:1-5, P2:5-6\<close>: the last segment that
  carries the pid of the first row ends at 5, its completion time is 1. With two rows of
  the same pid the last segment of that pid ends at 3, the completion time of the first
  row is 1. With a burst time 0 and an arrival after 0, \<open>round_robin\<close> returns an empty
  schedule and the completion time 0. On a frame with int64 columns and two bursts of
  \<open>2^62\<close>, \<open>round_robin\<close> raises \<^verbatim>\<open>OverflowError\<close> and returns no table.
\<close>

theorem metrics_ownership_needs_conditions:
  "positive_bursts idle_pid_example \<and> unique_ids idle_pid_example \<and>
   fits_int64 idle_pid_example \<and>
   map seg_pid (fst (fcfs idle_pid_example)) = [''Idle'', ''Idle'', ''P2''] \<and>
   last_end ''Idle'' (fst (fcfs idle_pid_example)) = Some 5 \<and>
   map completion_time (snd (fcfs idle_pid_example)) = [1, 6] \<and>
   \<not> completion_from_schedule (fst (fcfs idle_pid_example)) (snd (fcfs idle_pid_example)) \<and>
   positive_bursts same_pid_example \<and> no_idle_id same_pid_example \<and>
   fits_int64 same_pid_example \<and>
   \<not> completion_from_schedule (fst (fcfs same_pid_example)) (snd (fcfs same_pid_example)) \<and>
   unique_ids zero_burst_example \<and> no_idle_id zero_burst_example \<and>
   fits_int64 zero_burst_example \<and>
   map_option fst (round_robin zero_burst_example 1) = Some [] \<and>
   map_option (\<lambda>r. completion_from_schedule (fst r) (snd r))
     (round_robin zero_burst_example 1) = Some False \<and>
   positive_bursts overflow_example \<and> unique_ids overflow_example \<and>
   no_idle_id overflow_example \<and>
   map_option (map_sum id fst) (round_robin_int64 overflow_example (2 ^ 62)) =
     Some (Inl OverflowError)"
  by code_simp

section \<open>Repeated calls and the caller's input\<close>

lemma set_metrics_fresh:
  "set_metrics (h @ [f]) (length h) ct tat wt = h @ [with_metrics f ct tat wt]"
  by (simp add: set_metrics_def df_set_column_def Let_def with_metrics_def)

lemma repeatableI:
  assumes p: "processes < length h"
    and shape: "\<And>h. processes < length h \<Longrightarrow>
      call h processes =
        map_option (\<lambda>(sched, f). ((sched, length h + k), h @ pre (h ! processes) @ [f]))
          (run (h ! processes))"
    and k: "\<And>f. length (pre f) = k"
  shows "repeatable call h processes"
  unfolding repeatable_def
proof (intro allI impI)
  fix sched m h1
  assume c: "call h processes = Some ((sched, m), h1)"
  then obtain f where f: "run (h ! processes) = Some (sched, f)"
    "m = length h + k" "h1 = h @ pre (h ! processes) @ [f]"
    unfolding shape [OF p] by auto
  have same: "h1 ! processes = h ! processes" using p f(3) by (simp add: nth_append)
  have p1: "processes < length h1" using p f(3) by simp
  have c2: "call h1 processes = Some ((sched, length h1 + k), h1 @ pre (h ! processes) @ [f])"
    unfolding shape [OF p1] same using f(1) by simp
  have "(h1 @ pre (h ! processes) @ [f]) ! (length h1 + k) = f"
    using k [of "h ! processes"] by (simp add: nth_append)
  moreover have "h1 ! m = f" using f(2,3) k [of "h ! processes"] by (simp add: nth_append)
  moreover have "(h1 @ pre (h ! processes) @ [f]) ! processes = h ! processes"
    using p1 same by (simp add: nth_append)
  ultimately show "take (length h) h1 = h \<and> h1 ! processes = h ! processes \<and>
        (\<exists>m' h2. call h1 processes = Some ((sched, m'), h2) \<and> h2 ! m' = h1 ! m \<and>
           h2 ! processes = h ! processes)"
    using c2 same f(3) by auto
qed

lemma map_insort_key:
  "map f (insort_key (\<lambda>x. g (f x)) x xs) = insort_key g (f x) (map f xs)"
  by (induction xs) simp_all

lemma map_sort_key:
  "map f (sort_key (\<lambda>x. g (f x)) xs) = sort_key g (map f xs)"
  by (induction xs) (simp_all add: map_insort_key)

lemma rows_frame_sort_values: "rows (frame_sort_values f) = sort_values (rows f)"
proof -
  have "map (\<lambda>i. rows f ! i)
          (sort_key (\<lambda>i. (arrival_time (rows f ! i), pid (rows f ! i))) [0..<length (rows f)]) =
        sort_key (\<lambda>p. (arrival_time p, pid p)) (map (\<lambda>i. rows f ! i) [0..<length (rows f)])"
    by (rule map_sort_key [of "\<lambda>i. rows f ! i" "\<lambda>p. (arrival_time p, pid p)"])
  then show ?thesis by (simp add: frame_sort_values_def Let_def sort_values_def map_nth)
qed

lemma fcfs_call_shape:
  assumes "processes < length h"
  shows "Some (fcfs_call h processes) =
     map_option (\<lambda>(sched, f). ((sched, length h + 2),
         h @ [frame_sort_values (h ! processes), frame_sort_values (h ! processes)] @ [f]))
       (fcfs_run (h ! processes))"
proof -
  define f where "f = frame_sort_values (h ! processes)"
  define st where
    "st = fold (fcfs_body (rows f)) [0..<length (rows f)] (fcfs_init (length (rows f)))"
  have "fcfs_call h processes =
      ((f_schedule st, length (h @ [f, f])),
       set_metrics ((h @ [f, f]) @ [f]) (length (h @ [f, f]))
         (f_completion_time st) (f_turnaround_time st) (f_waiting_time st))"
    using assms
    by (simp add: fcfs_call_def df_sort_values_def df_reset_index_def df_copy_def Let_def
        nth_append f_def st_def)
  then show ?thesis
    unfolding set_metrics_fresh
    by (simp add: fcfs_run_def Let_def f_def [symmetric] st_def [symmetric])
qed

lemma sjf_call_shape:
  assumes "processes < length h"
  shows "sjf_call h processes =
     map_option (\<lambda>(sched, f). ((sched, length h + 1), h @ [h ! processes] @ [f]))
       (sjf_run (h ! processes))"
proof -
  define f where "f = h ! processes"
  have "sjf_call h processes =
     (case sjf_while (rows f) (sjf_init (length (rows f))) of
        None \<Rightarrow> None
      | Some st \<Rightarrow> Some ((s_schedule st, length (h @ [f])),
          set_metrics ((h @ [f]) @ [f]) (length (h @ [f]))
            (s_completion_time st) (s_turnaround_time st) (s_waiting_time st)))"
    using assms
    by (simp add: sjf_call_def df_copy_def Let_def nth_append f_def split: option.splits)
  then show ?thesis
    unfolding set_metrics_fresh
    by (simp add: sjf_run_def f_def [symmetric] split: option.splits)
qed

lemma round_robin_call_shape:
  assumes "processes < length h"
  shows "round_robin_call h processes tq =
     map_option (\<lambda>(sched, f). ((sched, length h + 1), h @ [h ! processes] @ [f]))
       (rr_run_frame tq (h ! processes))"
proof -
  define f where "f = h ! processes"
  have "round_robin_call h processes tq =
     (case rr_while (rows f) tq (rr_init (rows f)) of
        None \<Rightarrow> None
      | Some st \<Rightarrow> Some ((r_schedule st, length (h @ [f])),
          set_metrics ((h @ [f]) @ [f]) (length (h @ [f]))
            (r_completion_time st)
            (map (\<lambda>i. r_completion_time st ! i - arrival_time (rows f ! i))
               [0..<length (rows f)])
            (map (\<lambda>i. map (\<lambda>i. r_completion_time st ! i - arrival_time (rows f ! i))
                          [0..<length (rows f)] ! i - burst_time (rows f ! i))
               [0..<length (rows f)])))"
    using assms
    by (simp add: round_robin_call_def df_copy_def Let_def nth_append f_def
        split: option.splits)
  then show ?thesis
    unfolding set_metrics_fresh
    by (simp add: rr_run_frame_def Let_def f_def [symmetric] split: option.splits)
qed

lemma priority_scheduling_call_shape:
  assumes "processes < length h"
  shows "returned (priority_scheduling_call h processes pre) =
     map_option (\<lambda>(sched, f). ((sched, length h + 1), h @ [h ! processes] @ [f]))
       (prio_run_frame pre (h ! processes))"
proof -
  define f where "f = h ! processes"
  have "returned (priority_scheduling_call h processes pre) =
     (case prio_while (rows f) pre (prio_init (rows f)) of
        Some (Inr st) \<Rightarrow> Some ((p_schedule st, length (h @ [f])),
          set_metrics ((h @ [f]) @ [f]) (length (h @ [f]))
            (p_completion_time st)
            (map (\<lambda>i. p_completion_time st ! i - arrival_time (rows f ! i))
               [0..<length (rows f)])
            (map (\<lambda>i. map (\<lambda>i. p_completion_time st ! i - arrival_time (rows f ! i))
                          [0..<length (rows f)] ! i - burst_time (rows f ! i))
               [0..<length (rows f)]))
      | _ \<Rightarrow> None)"
    using assms
    by (simp add: priority_scheduling_call_def returned_def df_copy_def Let_def nth_append
        f_def split: option.splits sum.splits)
  then show ?thesis
    unfolding set_metrics_fresh
    by (simp add: prio_run_frame_def Let_def f_def [symmetric] split: option.splits sum.splits)
qed

lemma column_with_metrics:
  "column (with_metrics f ct tat wt) ''completion_time'' = ct"
  "column (with_metrics f ct tat wt) ''turnaround_time'' = tat"
  "column (with_metrics f ct tat wt) ''waiting_time'' = wt"
  by (simp_all add: column_def with_metrics_def update_conv')

lemma frame_table_with_metrics:
  "frame_table (with_metrics f ct tat wt) = metrics_frame (rows f) ct tat wt"
  by (simp add: frame_table_def column_with_metrics) (simp add: with_metrics_def)

lemma runs_agree_with_entry_points:
  "map_option (\<lambda>(sched, f). (sched, frame_table f)) (fcfs_run f0) = Some (fcfs (rows f0))"
  "map_option (\<lambda>(sched, f). (sched, frame_table f)) (sjf_run f0) = sjf (rows f0)"
  "map_option (\<lambda>(sched, f). (sched, frame_table f)) (rr_run_frame tq f0) =
     round_robin (rows f0) tq"
  "map_option (\<lambda>(sched, f). (sched, frame_table f)) (prio_run_frame pre f0) =
     returned (priority_scheduling (rows f0) pre)"
proof -
  show "map_option (\<lambda>(sched, f). (sched, frame_table f)) (fcfs_run f0) = Some (fcfs (rows f0))"
    by (simp add: fcfs_run_def fcfs_def Let_def frame_table_with_metrics rows_frame_sort_values)
  show "map_option (\<lambda>(sched, f). (sched, frame_table f)) (sjf_run f0) = sjf (rows f0)"
    by (simp add: sjf_run_def sjf_def Let_def frame_table_with_metrics split: option.splits)
  show "map_option (\<lambda>(sched, f). (sched, frame_table f)) (rr_run_frame tq f0) =
     round_robin (rows f0) tq"
    by (simp add: rr_run_frame_def round_robin_def Let_def frame_table_with_metrics
        split: option.splits)
  show "map_option (\<lambda>(sched, f). (sched, frame_table f)) (prio_run_frame pre f0) =
     returned (priority_scheduling (rows f0) pre)"
    by (simp add: prio_run_frame_def priority_scheduling_def returned_def Let_def
        frame_table_with_metrics split: option.splits sum.splits)
qed

text \<open>
  Claim C9, on a store of DataFrame objects. The caller passes a reference \<open>processes\<close>
  into the store \<open>h\<close>. Every entry point works on fresh objects (\<^verbatim>\<open>sort_values\<close>,
  \<^verbatim>\<open>reset_index\<close> and \<^verbatim>\<open>copy\<close> allocate, the three metrics columns are assigned to the fresh
  copy), so after a call that returns every object that existed before, the caller's
  input among them, is unchanged; and a second call on the same reference returns the same
  schedule and a metrics table equal to the first one.
\<close>

theorem calls_repeatable_and_input_unchanged:
  assumes "processes < length h"
  shows "repeatable (\<lambda>h p. Some (fcfs_call h p)) h processes \<and>
    repeatable sjf_call h processes \<and>
    repeatable (\<lambda>h p. round_robin_call h p time_quantum) h processes \<and>
    repeatable (\<lambda>h p. returned (priority_scheduling_call h p preemptive)) h processes"
proof (intro conjI)
  show "repeatable (\<lambda>h p. Some (fcfs_call h p)) h processes"
    by (rule repeatableI [OF assms, where k = 2 and run = fcfs_run
          and pre = "\<lambda>f. [frame_sort_values f, frame_sort_values f]"])
      (simp_all add: fcfs_call_shape)
  show "repeatable sjf_call h processes"
    by (rule repeatableI [OF assms, where k = 1 and run = sjf_run and pre = "\<lambda>f. [f]"])
      (simp_all add: sjf_call_shape)
  show "repeatable (\<lambda>h p. round_robin_call h p time_quantum) h processes"
    by (rule repeatableI [OF assms, where k = 1 and run = "rr_run_frame time_quantum"
          and pre = "\<lambda>f. [f]"])
      (simp_all add: round_robin_call_shape)
  show "repeatable (\<lambda>h p. returned (priority_scheduling_call h p preemptive)) h processes"
    by (rule repeatableI [OF assms, where k = 1 and run = "prio_run_frame preemptive"
          and pre = "\<lambda>f. [f]"])
      (simp_all add: priority_scheduling_call_shape)
qed

text \<open>
  The theorem on a store holding \<open>gap_example\<close> at reference 0: two calls of \<open>fcfs\<close> give
  the same schedule, the second metrics table equals the first, and the input still is
  \<open>gap_example\<close> in its original order.
\<close>

theorem calls_repeatable_and_input_unchanged_witness:
  "(0::nat) < length example_heap \<and>
   fst (fst (fcfs_call (snd (fcfs_call example_heap 0)) 0)) =
     fst (fst (fcfs_call example_heap 0)) \<and>
   snd (fcfs_call (snd (fcfs_call example_heap 0)) 0) !
       snd (fst (fcfs_call (snd (fcfs_call example_heap 0)) 0)) =
     snd (fcfs_call example_heap 0) ! snd (fst (fcfs_call example_heap 0)) \<and>
   rows (snd (fcfs_call example_heap 0) ! 0) = gap_example \<and>
   map pid (rows (snd (fcfs_call example_heap 0) ! snd (fst (fcfs_call example_heap 0)))) =
     [''P2'', ''P1'', ''P3'']"
proof -
  have a: "(0::nat) < length example_heap" by (simp add: example_heap_def)
  obtain sched m h1 where c: "fcfs_call example_heap 0 = ((sched, m), h1)"
    by (metis surj_pair)
  from calls_repeatable_and_input_unchanged [OF a, of 1 False]
  have "repeatable (\<lambda>h p. Some (fcfs_call h p)) example_heap 0" by blast
  then obtain m' h2 where r: "h1 ! 0 = example_heap ! 0"
    "fcfs_call h1 0 = ((sched, m'), h2)" "h2 ! m' = h1 ! m"
    unfolding repeatable_def using c by auto
  have e: "map pid (rows (snd (fcfs_call example_heap 0) !
      snd (fst (fcfs_call example_heap 0)))) = [''P2'', ''P1'', ''P3'']"
    by code_simp
  show ?thesis using a c r e by (simp add: example_heap_def)
qed

end
